theory Spec2Isabelle
  imports Main
begin

section \<open>Errors, provider requests and traces\<close>

text \<open>
  The provider module is asynchronous TypeScript over the AWS SDK. Each function is
  embedded as a function from the outcomes of the SDK requests it issues to the list
  of actions it performs (its trace) and its result. A rejected promise or a thrown
  exception is \<open>Inl\<close> of an \<open>error\<close>; the constructors tell where it was raised.
  Calls to the logger of the \<open>log\<close> module are not recorded; the response collector's
  own \<open>debug\<close> logger is (as \<open>Log\<close> actions).
\<close>

datatype error =
    Error string         \<comment> \<open>\<open>new Error(message)\<close> thrown in this module\<close>
  | AWSError string      \<comment> \<open>an SDK request's promise rejected\<close>
  | TypeError string     \<comment> \<open>a property read on \<open>undefined\<close>\<close>
  | SyntaxError          \<comment> \<open>\<open>JSON.parse\<close> on a malformed text\<close>

text \<open>
  A client of the SDK, as \<open>createAWSApis\<close> makes it: the service, the \<open>apiVersion\<close> and the
  region its requests go to.
\<close>

datatype service = IAM | Lambda | CloudWatchLogs | SQS | SNS

datatype client = Client service string string

fun client_region :: "client \<Rightarrow> string" where
  "client_region (Client api apiVersion r) = r"

text \<open>
  The requests, by operation and parameters. \<open>Via c r\<close> is the request \<open>r\<close> made on the
  client \<open>c\<close>. Teardown records the client of each of its requests, since it also runs on
  clients made from a manifest; the collector and the dispatch of an instance use the
  clients of its state throughout and leave them out.
\<close>

datatype request =
    IamGetRole string
  | IamCreateRole string string nat                \<comment> \<open>RoleName, trusted service, MaxSessionDuration\<close>
  | IamAttachRolePolicy string string              \<comment> \<open>RoleName, PolicyArn\<close>
  | IamPutRolePolicy string string                 \<comment> \<open>RoleName, PolicyName\<close>
  | IamListAttachedRolePolicies string
  | IamDetachRolePolicy string "string option"     \<comment> \<open>RoleName, PolicyArn\<close>
  | IamListRolePolicies string
  | IamDeleteRolePolicy string string
  | IamDeleteRole string
  | SqsCreateQueue string nat "string option"      \<comment> \<open>QueueName, VisibilityTimeout, deadLetterTargetArn\<close>
  | SqsGetQueueAttributes "string option"
  | SqsSendStopMessage string                      \<comment> \<open>body \<open>empty\<close>, attribute \<open>cloudify = stop\<close>\<close>
  | SqsReceiveMessage "string option"
  | SqsDeleteMessageBatch "string option" "(string option \<times> string option) list"
  | SqsDeleteQueue string
  | SnsCreateTopic string
  | SnsSetTopicAttributes "string option" string string
  | SnsSubscribe "string option" "string option"   \<comment> \<open>TopicArn, Endpoint\<close>
  | SnsUnsubscribe string
  | SnsPublish "string option" string              \<comment> \<open>TopicArn, Message\<close>
  | SnsDeleteTopic string
  | LambdaGetFunction string
  | LambdaCreateFunction string string string "string option"
                                                   \<comment> \<open>FunctionName, Role, Handler, DeadLetterConfig.TargetArn\<close>
  | LambdaAddPermission string "string option"     \<comment> \<open>FunctionName, SourceArn\<close>
  | LambdaInvoke "string option" string            \<comment> \<open>FunctionName, Payload\<close>
  | LambdaDeleteFunction string
  | LogsCreateLogGroup string
  | LogsPutRetentionPolicy string nat
  | LogsDeleteLogGroup string
  | Pack string                                    \<comment> \<open>the packer, on the function module\<close>
  | ZipStreamToBuffer
  | Via client request

datatype wait =
    ResultCollector      \<comment> \<open>the promise in \<open>state.resultCollectorPromise\<close>\<close>
  | Cancel               \<comment> \<open>the promise of \<open>cancelWithoutCleanup\<close>\<close>
  | CreateFunction       \<comment> \<open>the promise of \<open>createFunction\<close>\<close>
  | Slot nat             \<comment> \<open>the promise of a pending result slot\<close>
  | Requests             \<comment> \<open>\<open>Promise.all\<close> over the requests just started\<close>
  | DeadLetterQueueCollector

datatype action =
    Call request         \<comment> \<open>a request is sent and its promise awaited\<close>
  | Start request        \<comment> \<open>a request is sent; nothing waits for it here\<close>
  | Sleep nat            \<comment> \<open>\<open>await sleep(ms)\<close>\<close>
  | Await wait           \<comment> \<open>\<open>await\<close> of a promise created earlier\<close>
  | Spawn wait           \<comment> \<open>an async function is called and not awaited\<close>
  | Register string nat  \<comment> \<open>\<open>callResultPromises.set(CallId, deferred)\<close>\<close>
  | SetTimeout           \<comment> \<open>\<open>setTimeout(callback, 0)\<close>\<close>
  | Log string           \<comment> \<open>a line of the collector's logger\<close>
  | LogError error       \<comment> \<open>\<open>log(err)\<close>: the collector's logger prints a caught error\<close>
  | Uncaught error       \<comment> \<open>an exception ends a callback or a task nobody awaits\<close>

text \<open>The actions at which the running task gives up control.\<close>

fun suspends :: "action \<Rightarrow> bool" where
  "suspends (Call _) = True"
| "suspends (Sleep _) = True"
| "suspends (Await _) = True"
| "suspends _ = False"

text \<open>
  How the provider answers a request: the promise of \<open>request.promise()\<close> is rejected
  with an \<open>AWSError\<close> (here its code) or resolved with the response data.
\<close>

datatype 'a outcome = Failure string | Success 'a

definition promise :: "'a outcome \<Rightarrow> error + 'a" where
  "promise r = (case r of Failure code \<Rightarrow> Inl (AWSError code) | Success x \<Rightarrow> Inr x)"

text \<open>
  \<open>quietly\<close> and \<open>carefully\<close> turn a rejection into \<open>undefined\<close> (\<open>None\<close>). The value a
  request's promise resolves with is an object (the SDK's \<open>PromiseResult\<close>), hence truthy:
  \<open>if (result)\<close> on the outcome of \<open>quietly\<close> is \<open>result \<noteq> None\<close>.
\<close>

definition quietly :: "'a outcome \<Rightarrow> 'a option" where
  "quietly r = (case r of Failure _ \<Rightarrow> None | Success x \<Rightarrow> Some x)"

definition carefully :: "'a outcome \<Rightarrow> 'a option" where
  "carefully r = (case r of Failure err \<Rightarrow> None | Success x \<Rightarrow> Some x)"

text \<open>
  \<open>await quietly(request)\<close> where the result is not used: the request is sent and
  awaited, and whatever the provider answers is dropped.
\<close>

definition discard :: "request \<Rightarrow> 'a outcome \<Rightarrow> action list" where
  "discard req r = (case quietly r of None \<Rightarrow> [Call req] | Some _ \<Rightarrow> [Call req])"

section \<open>Readiness polling\<close>

text \<open>
  \<open>pollAWSRequest(n, description, fn)\<close>. The argument \<open>fn i\<close> is the outcome of the
  request that the \<open>i\<close>-th call of the thunk sends, \<open>req\<close> is that request. The loop
  \<open>for (let i = 0; i < n; i++)\<close> is \<open>poll_attempts\<close>, started at \<open>i = 0\<close>. The message of
  the final error is written in the source with double quotes, so the placeholder is
  not interpolated.
\<close>

function poll_attempts ::
  "nat \<Rightarrow> nat \<Rightarrow> request \<Rightarrow> (nat \<Rightarrow> 'a outcome) \<Rightarrow> action list \<times> (error + 'a option)"
where
  "poll_attempts i n req fn =
     (if i < n then
        (case quietly (fn i) of
           Some r \<Rightarrow> ([Call req], Inr (Some r))
         | None \<Rightarrow>
             (case poll_attempts (Suc i) n req fn of
                (tr, res) \<Rightarrow> (Call req # Sleep 1000 # tr, res)))
      else ([], Inl (Error ''Polling failed for ${description}'')))"
  by pat_completeness auto
termination
  by (relation "measure (\<lambda>(i, n, req, fn). n - i)") auto

declare poll_attempts.simps [simp del]

definition pollAWSRequest ::
  "nat \<Rightarrow> string \<Rightarrow> request \<Rightarrow> (nat \<Rightarrow> 'a outcome) \<Rightarrow> action list \<times> (error + 'a option)"
where
  "pollAWSRequest n description req fn =
     (case poll_attempts 0 n req fn of (tr, res) \<Rightarrow> (Sleep 2000 # tr, res))"

text \<open>
  \<open>createSNSNotifier(Name, RoleArn, services)\<close>; \<open>createTopic\<close> is the outcome of
  \<open>sns.createTopic\<close> (the \<open>TopicArn\<close> of the response, which may be absent) and
  \<open>setTopicAttributes i\<close> the outcome of the \<open>i\<close>-th \<open>sns.setTopicAttributes\<close>.
\<close>

definition createSNSNotifier ::
  "string \<Rightarrow> string \<Rightarrow> string option outcome \<Rightarrow> (nat \<Rightarrow> unit outcome)
     \<Rightarrow> action list \<times> (error + string option)"
where
  "createSNSNotifier Name RoleArn createTopic setTopicAttributes =
     (case promise createTopic of
        Inl err \<Rightarrow> ([Call (SnsCreateTopic Name)], Inl err)
      | Inr TopicArn \<Rightarrow>
          (case pollAWSRequest 100
                  ''role for SNS invocation of lambda function failure feedback''
                  (SnsSetTopicAttributes TopicArn ''LambdaFailureFeedbackRoleArn'' RoleArn)
                  setTopicAttributes of
             (tr, Inl err) \<Rightarrow> (Call (SnsCreateTopic Name) # tr, Inl err)
           | (tr, Inr success) \<Rightarrow>
               (if success = None
                then (Call (SnsCreateTopic Name) # tr,
                      Inl (Error ''Could not initialize lambda execution role''))
                else (Call (SnsCreateTopic Name) # tr, Inr TopicArn))))"

section \<open>Resource manifest and runtime state\<close>

datatype RoleHandling = createTemporaryRole | createOrReuseCachedRole

text \<open>
  \<open>AWSResources\<close>, with every field optional as in \<open>PartialState\<close>, the type \<open>cleanup\<close>
  takes. \<open>initialize\<close> always sets \<open>FunctionName\<close>, \<open>RoleName\<close>, \<open>rolePolicy\<close>,
  \<open>logGroupName\<close> and \<open>region\<close>.
\<close>

record AWSResources =
  FunctionName :: "string option"
  RoleName :: "string option"
  RequestTopicArn :: "string option"
  ResponseQueueUrl :: "string option"
  DeadLetterQueueUrl :: "string option"
  rolePolicy :: "RoleHandling option"
  logGroupName :: "string option"
  region :: "string option"
  SNSLambdaSubscriptionArn :: "string option"
  SNSFeedbackRole :: "string option"

text \<open>\<open>AWSServices\<close> and \<open>createAWSApis(region)\<close>: one client per service, all for the region.\<close>

record AWSServices =
  lambda :: client
  cloudwatch :: client
  iam :: client
  sqs :: client
  sns :: client

definition createAWSApis :: "string \<Rightarrow> AWSServices" where
  "createAWSApis r =
     \<lparr> lambda = Client Lambda ''2015-03-31'' r,
       cloudwatch = Client CloudWatchLogs ''2014-03-28'' r,
       iam = Client IAM ''2010-05-08'' r,
       sqs = Client SQS ''2012-11-05'' r,
       sns = Client SNS ''2010-03-31'' r \<rparr>"

text \<open>
  \<open>State\<close>. The \<open>Map\<close> of pending calls is a list of pairs in insertion order, a
  \<open>Deferred\<close> is the number of its promise, and \<open>resultCollectorPromise\<close> tells
  whether the field holds a promise.
\<close>

record State =
  resources :: AWSResources
  services :: AWSServices
  useQueue :: "bool option"
  callResultPromises :: "(string \<times> nat) list"
  resultCollectorPromise :: bool

text \<open>JavaScript truthiness of an optional string: defined and not empty.\<close>

definition truthy :: "string option \<Rightarrow> bool" where
  "truthy s = (case s of None \<Rightarrow> False | Some x \<Rightarrow> x \<noteq> [])"

section \<open>Teardown\<close>

text \<open>
  What \<open>cleanup\<close> meets: the two listings of \<open>deleteRole\<close>, by role name, the
  provider's answer to every other request (\<open>respond\<close>), and how the promise held in
  \<open>resultCollectorPromise\<close> settles.
\<close>

record cleanup_env =
  listAttachedRolePolicies :: "string \<Rightarrow> (string option list) option outcome"
  listRolePolicies :: "string \<Rightarrow> string list outcome"
  respond :: "request \<Rightarrow> unit outcome"
  resultCollector_settles :: "error + unit"

text \<open>
  \<open>deleteRole(RoleName, iam)\<close>. The requests under one \<open>Promise.all\<close> are sent together
  (\<open>Start\<close>) and awaited together (\<open>Await Requests\<close>); each is wrapped in \<open>carefully\<close>,
  so the \<open>Promise.all\<close> does not reject.
\<close>

definition deleteRole :: "cleanup_env \<Rightarrow> string \<Rightarrow> client \<Rightarrow> action list" where
  "deleteRole env name iamClient =
     (let policies = carefully (listAttachedRolePolicies env name);
          AttachedPolicies =
            (case policies of None \<Rightarrow> [] | Some None \<Rightarrow> [] | Some (Some ps) \<Rightarrow> ps);
          rolePolicyListResponse = carefully (listRolePolicies env name);
          RolePolicies = (case rolePolicyListResponse of None \<Rightarrow> [] | Some ns \<Rightarrow> ns)
      in [Call (Via iamClient (IamListAttachedRolePolicies name))]
         @ map (\<lambda>PolicyArn. Start (Via iamClient (IamDetachRolePolicy name PolicyArn)))
             AttachedPolicies
         @ [Await Requests, Call (Via iamClient (IamListRolePolicies name))]
         @ map (\<lambda>PolicyName. Start (Via iamClient (IamDeleteRolePolicy name PolicyName)))
             RolePolicies
         @ [Await Requests]
         @ discard (Via iamClient (IamDeleteRole name))
             (respond env (Via iamClient (IamDeleteRole name))))"

text \<open>
  \<open>cancelWithoutCleanup(state)\<close>: the first component is what the call does before its
  only \<open>await\<close> (the stop messages are sent at once), the second is how its promise
  settles. \<open>sendQueueStopMessage\<close> never rejects, so \<open>Promise.all(tasks)\<close> rejects only
  if the collector's promise does.
\<close>

definition cancelWithoutCleanup :: "cleanup_env \<Rightarrow> State \<Rightarrow> action list \<times> (error + unit)" where
  "cancelWithoutCleanup env state =
     (let r = resources state;
          collecting = (truthy (ResponseQueueUrl r) \<and> resultCollectorPromise state)
      in ((if collecting
           then [Start (Via (sqs (services state)) (SqsSendStopMessage (the (ResponseQueueUrl r))))]
           else [])
          @ (if truthy (DeadLetterQueueUrl r)
             then [Start (Via (sqs (services state))
                            (SqsSendStopMessage (the (DeadLetterQueueUrl r))))]
             else []),
          (if collecting then resultCollector_settles env else Inr ())))"

text \<open>The three parts of \<open>cleanup(state)\<close>: before, while and after the stop is pending.\<close>

definition quietly_delete :: "cleanup_env \<Rightarrow> request \<Rightarrow> action list" where
  "quietly_delete env req = discard req (respond env req)"

definition cleanup_unsubscribe :: "cleanup_env \<Rightarrow> State \<Rightarrow> action list" where
  "cleanup_unsubscribe env state =
     (let r = resources state
      in if truthy (SNSLambdaSubscriptionArn r)
         then quietly_delete env
                (Via (sns (services state)) (SnsUnsubscribe (the (SNSLambdaSubscriptionArn r))))
         else [])"

definition cleanup_function_and_roles :: "cleanup_env \<Rightarrow> State \<Rightarrow> action list" where
  "cleanup_function_and_roles env state =
     (let r = resources state
      in (if truthy (FunctionName r)
          then quietly_delete env
                 (Via (lambda (services state)) (LambdaDeleteFunction (the (FunctionName r))))
          else [])
         @ (if truthy (logGroupName r)
            then quietly_delete env
                   (Via (cloudwatch (services state)) (LogsDeleteLogGroup (the (logGroupName r))))
            else [])
         @ (if truthy (RoleName r) \<and> rolePolicy r = Some createTemporaryRole
            then deleteRole env (the (RoleName r)) (iam (services state)) else [])
         @ (if truthy (SNSFeedbackRole r) \<and> rolePolicy r = Some createTemporaryRole
            then deleteRole env (the (SNSFeedbackRole r)) (iam (services state)) else []))"

definition cleanup_topic_and_queues :: "cleanup_env \<Rightarrow> State \<Rightarrow> action list" where
  "cleanup_topic_and_queues env state =
     (let r = resources state
      in (if truthy (RequestTopicArn r)
          then quietly_delete env
                 (Via (sns (services state)) (SnsDeleteTopic (the (RequestTopicArn r))))
          else [])
         @ (if truthy (ResponseQueueUrl r)
            then quietly_delete env
                   (Via (sqs (services state)) (SqsDeleteQueue (the (ResponseQueueUrl r))))
            else [])
         @ (if truthy (DeadLetterQueueUrl r)
            then quietly_delete env
                   (Via (sqs (services state)) (SqsDeleteQueue (the (DeadLetterQueueUrl r))))
            else []))"

definition cleanup :: "cleanup_env \<Rightarrow> State \<Rightarrow> action list \<times> (error + unit)" where
  "cleanup env state =
     (case cancelWithoutCleanup env state of
        (stops, cancelPromise) \<Rightarrow>
          (let before = cleanup_unsubscribe env state @ stops
                        @ cleanup_function_and_roles env state @ [Await Cancel]
           in case cancelPromise of
                Inl err \<Rightarrow> (before, Inl err)
              | Inr _ \<Rightarrow> (before @ cleanup_topic_and_queues env state, Inr ())))"

text \<open>
  \<open>getResourceList\<close> and \<open>cleanupResources\<close>. \<open>JSON.stringify\<close> and \<open>JSON.parse\<close> are
  parameters; \<open>JSON_parse\<close> gives \<open>Inl SyntaxError\<close> on a malformed text, \<open>Inr None\<close> when
  the text is \<open>null\<close>, and otherwise the fields found in the parsed value.
  \<open>cleanupResources\<close> is not \<open>async\<close>: \<open>Throws\<close> is an exception raised by the call
  itself, \<open>Returns\<close> carries the trace and outcome of the promise it returns.
\<close>

datatype 'a completion = Throws error | Returns 'a

definition getResourceList :: "(AWSResources \<Rightarrow> string) \<Rightarrow> State \<Rightarrow> string" where
  "getResourceList JSON_stringify state = JSON_stringify (resources state)"

definition cleanupResources ::
  "(string \<Rightarrow> error + AWSResources option) \<Rightarrow> cleanup_env \<Rightarrow> string
     \<Rightarrow> (action list \<times> (error + unit)) completion"
where
  "cleanupResources JSON_parse env resourceString =
     (case JSON_parse resourceString of
        Inl err \<Rightarrow> Throws err
      | Inr None \<Rightarrow> Throws (TypeError ''region'')
      | Inr (Some rs) \<Rightarrow>
          (if \<not> truthy (region rs)
           then Throws (Error (''Resources missing '' @ [CHR 0x27] @ ''region'' @ [CHR 0x27]))
           else Returns (cleanup env
                  \<lparr> resources = rs, services = createAWSApis (the (region rs)),
                    useQueue = None, callResultPromises = [],
                    resultCollectorPromise = False \<rparr>)))"

section \<open>Messages, returns and pending result slots\<close>

text \<open>
  An SQS message. \<open>MessageAttributes\<close>, when present, lists each attribute's name with
  its \<open>StringValue\<close>.
\<close>

record Message =
  MessageId :: "string option"
  ReceiptHandle :: "string option"
  Body :: "string option"
  MessageAttributes :: "(string \<times> string option) list option"

definition isQueueStopMessage :: "Message \<Rightarrow> bool" where
  "isQueueStopMessage m =
     (case MessageAttributes m of
        None \<Rightarrow> False
      | Some attrs \<Rightarrow>
          (case map_of attrs ''cloudify'' of
             None \<Rightarrow> False
           | Some StringValue \<Rightarrow> StringValue = Some ''stop''))"

text \<open>
  The \<open>value\<close> of a \<open>FunctionReturn\<close>: \<open>undefined\<close> or \<open>null\<close> (\<open>Nullish\<close>), or a value
  with its properties \<open>message\<close>, \<open>name\<close> and \<open>stack\<close> (each may be undefined) and the
  rest of its content. A \<open>returned\<close> of \<open>None\<close> is a falsy value.
\<close>

datatype 'v jsvalue = Nullish | Object "string option" "string option" "string option" 'v

datatype 'v FunctionReturn = FunctionReturn (type: "string option") (val: "'v jsvalue")

text \<open>\<open>QueuedResponse\<close>: the fields \<open>returned\<close> and \<open>rawResponse\<close>.\<close>

datatype 'v QueuedResponse = QueuedResponse "'v FunctionReturn option" Message

text \<open>
  A \<open>Deferred\<close> is the number of its promise; \<open>promises\<close> maps it to \<open>None\<close> while
  pending and to its settlement afterwards. Settling a settled promise does nothing.
\<close>

datatype 'v settlement = Resolved "'v QueuedResponse" | Rejected error

record CallResults =
  CallId :: "string option"
  message :: Message
  deferred :: "nat option"

datatype timer = ResolvePromises "CallResults list" | StartResultCollectorIfNeeded

text \<open>
  Everything the tasks of one instance share: the state, the promises of the result
  slots, the callbacks queued by \<open>setTimeout(_, 0)\<close> in order, the number of
  \<open>resultCollector\<close> calls that have not returned yet, and the actions so far.
\<close>

record 'v world =
  state_of :: State
  promises :: "nat \<Rightarrow> 'v settlement option"
  nextDeferred :: nat
  timers :: "timer list"
  collectors :: nat
  trace :: "action list"

definition initial_world :: "State \<Rightarrow> 'v world" where
  "initial_world st =
     \<lparr> state_of = st, promises = (\<lambda>d. None), nextDeferred = 0, timers = [], collectors = 0,
       trace = [] \<rparr>"

definition emit :: "action list \<Rightarrow> 'v world \<Rightarrow> 'v world" where
  "emit as w = w\<lparr>trace := trace w @ as\<rparr>"

definition settle :: "nat \<Rightarrow> 'v settlement \<Rightarrow> 'v world \<Rightarrow> 'v world" where
  "settle d s w = (if promises w d = None then w\<lparr>promises := (promises w)(d := Some s)\<rparr> else w)"

definition pending :: "'v world \<Rightarrow> (string \<times> nat) list" where
  "pending w = callResultPromises (state_of w)"

definition set_pending :: "(string \<times> nat) list \<Rightarrow> 'v world \<Rightarrow> 'v world" where
  "set_pending m w = w\<lparr>state_of := (state_of w)\<lparr>callResultPromises := m\<rparr>\<rparr>"

definition set_resultCollectorPromise :: "bool \<Rightarrow> 'v world \<Rightarrow> 'v world" where
  "set_resultCollectorPromise b w = w\<lparr>state_of := (state_of w)\<lparr>resultCollectorPromise := b\<rparr>\<rparr>"

text \<open>The operations of \<open>Map\<close>: \<open>set\<close> replaces in place or appends.\<close>

fun Map_set :: "string \<Rightarrow> nat \<Rightarrow> (string \<times> nat) list \<Rightarrow> (string \<times> nat) list" where
  "Map_set k v [] = [(k, v)]"
| "Map_set k v (p # ps) = (if fst p = k then (k, v) # ps else p # Map_set k v ps)"

definition Map_get :: "(string \<times> nat) list \<Rightarrow> string option \<Rightarrow> nat option" where
  "Map_get m key = (case key of None \<Rightarrow> None | Some k \<Rightarrow> map_of m k)"

definition Map_delete :: "(string \<times> nat) list \<Rightarrow> string option \<Rightarrow> (string \<times> nat) list" where
  "Map_delete m key = (case key of None \<Rightarrow> m | Some k \<Rightarrow> filter (\<lambda>p. fst p \<noteq> k) m)"

text \<open>How a template literal prints a number and an optional string.\<close>

fun decimal :: "nat \<Rightarrow> string" where
  "decimal n =
     (if n < 10 then [char_of (48 + n)] else decimal (n div 10) @ [char_of (48 + n mod 10)])"

declare decimal.simps [simp del]

definition shown :: "string option \<Rightarrow> string" where
  "shown s = (case s of None \<Rightarrow> ''undefined'' | Some x \<Rightarrow> x)"

section \<open>The response collector\<close>

text \<open>
  \<open>resolvePromises(results)\<close>, the callback queued after a batch. \<open>JSON_parse\<close> is
  \<open>JSON.parse\<close> on a message body. An exception of \<open>JSON.parse\<close> leaves the callback
  (\<open>Uncaught\<close>), so the results after it are not visited.
\<close>

fun resolvePromises ::
  "(string \<Rightarrow> error + 'v FunctionReturn option) \<Rightarrow> CallResults list \<Rightarrow> 'v world \<Rightarrow> 'v world"
where
  "resolvePromises JSON_parse [] w = w"
| "resolvePromises JSON_parse (r # results) w =
     (let w1 = (if \<not> truthy (CallId r)
                then emit [Log (''No CallId for MessageId: '' @ shown (MessageId (message r))
                             @ '', attributes: ''
                             @ (case MessageAttributes (message r) of
                                  None \<Rightarrow> ''undefined'' | Some _ \<Rightarrow> ''[object Object]'')
                             @ '', Body: '' @ shown (Body (message r)))] w
                else w)
      in if \<not> truthy (Body (message r)) then resolvePromises JSON_parse results w1
         else (case JSON_parse (the (Body (message r))) of
                 Inl err \<Rightarrow> emit [Uncaught err] w1
               | Inr returned \<Rightarrow>
                   (case deferred r of
                      None \<Rightarrow>
                        resolvePromises JSON_parse results
                          (emit [Log (''Deferred promise not found for CallID: ''
                                      @ shown (CallId r))] w1)
                    | Some d \<Rightarrow>
                        resolvePromises JSON_parse results
                          (settle d (Resolved (QueuedResponse returned (message r))) w1))))"

text \<open>\<open>rejectAll()\<close>: the loop over the entries of the map, then the function.\<close>

fun reject_entries :: "(string \<times> nat) list \<Rightarrow> 'v world \<Rightarrow> 'v world" where
  "reject_entries [] w = w"
| "reject_entries ((key, d) # entries) w =
     reject_entries entries
       (settle d (Rejected (Error ''Call to cloud function cancelled in cleanup''))
          (emit [Log (''Rejecting call result: '' @ key)] w))"

definition rejectAll :: "'v world \<Rightarrow> 'v world" where
  "rejectAll w =
     reject_entries (pending w)
       (emit [Log (''Rejecting '' @ decimal (length (pending w)) @ '' result promises'')] w)"

text \<open>
  The \<open>for\<close> loop over one batch, inside \<open>try\<close>: it ends at a stop message, by the
  \<open>TypeError\<close> of reading \<open>CallId\<close> from a message without that attribute, or at the
  end of the batch. The second component is the map of pending calls as the loop
  leaves it.
\<close>

datatype for_exit = Stop | Throw error | Finished "CallResults list"

fun for_messages ::
  "Message list \<Rightarrow> CallResults list \<Rightarrow> (string \<times> nat) list \<Rightarrow> for_exit \<times> (string \<times> nat) list"
where
  "for_messages [] callResults m = (Finished callResults, m)"
| "for_messages (msg # rest) callResults m =
     (if isQueueStopMessage msg then (Stop, m)
      else (case MessageAttributes msg of
              None \<Rightarrow> (Throw (TypeError ''CallId''), m)
            | Some attrs \<Rightarrow>
                (case map_of attrs ''CallId'' of
                   None \<Rightarrow> (Throw (TypeError ''StringValue''), m)
                 | Some callId \<Rightarrow>
                     for_messages rest
                       (callResults @ [\<lparr> CallId = callId, message = msg,
                                          deferred = Map_get m callId \<rparr>])
                       (Map_delete m callId))))"

text \<open>
  \<open>resultCollector(state)\<close> runs in turns. \<open>resultCollector_while\<close> is the test of the
  \<open>while\<close> loop with what follows it up to the next suspension: either the next
  \<open>receiveMessage\<close> is sent, or the map is empty and the function returns after
  \<open>cleanup()\<close> and \<open>setTimeout\<close>. \<open>resultCollector_call\<close> is the call of the function,
  \<open>resultCollector_resume\<close> the turn that starts when \<open>receiveMessage\<close> settles, and
  \<open>resultCollector_body\<close> the body of the loop on the messages received.
\<close>

definition resultCollector_while :: "'v world \<Rightarrow> 'v world" where
  "resultCollector_while w =
     (if length (pending w) > 0
      then emit [Log (''Polling response queue (size '' @ decimal (length (pending w)) @ ''): ''
                      @ shown (ResponseQueueUrl (resources (state_of w)))),
                 Start (SqsReceiveMessage (ResponseQueueUrl (resources (state_of w))))] w
      else (emit [SetTimeout] (set_resultCollectorPromise False w))
             \<lparr> timers := timers w @ [StartResultCollectorIfNeeded],
               collectors := collectors w - 1 \<rparr>)"

definition resultCollector_call :: "'v world \<Rightarrow> 'v world" where
  "resultCollector_call w = resultCollector_while (w\<lparr>collectors := collectors w + 1\<rparr>)"

definition deleteSQSMessages :: "string option \<Rightarrow> Message list \<Rightarrow> action list" where
  "deleteSQSMessages QueueUrl Messages =
     (if length Messages > 0
      then [Start (SqsDeleteMessageBatch QueueUrl
                     (map (\<lambda>m. (MessageId m, ReceiptHandle m)) Messages))]
      else [])"

definition resultCollector_body :: "Message list \<Rightarrow> 'v world \<Rightarrow> 'v world" where
  "resultCollector_body Messages w =
     (let w1 = emit (Log (''received '' @ decimal (length Messages) @ '' messages.'')
                     # deleteSQSMessages (ResponseQueueUrl (resources (state_of w))) Messages) w
      in case for_messages Messages [] (pending w1) of
           (Stop, m) \<Rightarrow>
             (set_resultCollectorPromise False (rejectAll (set_pending m w1)))
               \<lparr>collectors := collectors w - 1\<rparr>
         | (Throw err, m) \<Rightarrow>
             resultCollector_while (emit [LogError err] (set_pending m w1))
         | (Finished callResults, m) \<Rightarrow>
             resultCollector_while
               ((emit [SetTimeout] (set_pending m w1))
                  \<lparr>timers := timers w @ [ResolvePromises callResults]\<rparr>))"

definition resultCollector_resume :: "Message list option outcome \<Rightarrow> 'v world \<Rightarrow> 'v world" where
  "resultCollector_resume response w =
     (case promise response of
        Inl err \<Rightarrow> (emit [Uncaught err] w)\<lparr>collectors := collectors w - 1\<rparr>
      | Inr received \<Rightarrow>
          resultCollector_body (case received of None \<Rightarrow> [] | Some ms \<Rightarrow> ms) w)"

definition startResultCollectorIfNeeded :: "'v world \<Rightarrow> 'v world" where
  "startResultCollectorIfNeeded w =
     (if length (pending w) > 0 \<and> \<not> resultCollectorPromise (state_of w)
      then set_resultCollectorPromise True (resultCollector_call (emit [Spawn ResultCollector] w))
      else w)"

text \<open>\<open>enqueueCallRequest(state, CallId)\<close>, with \<open>createDeferred\<close> taking the next number.\<close>

definition enqueueCallRequest :: "string \<Rightarrow> 'v world \<Rightarrow> 'v world \<times> nat" where
  "enqueueCallRequest callId w =
     (let deferred = nextDeferred w;
          w1 = w\<lparr>nextDeferred := Suc deferred\<rparr>;
          w2 = emit [Register callId deferred] (set_pending (Map_set callId deferred (pending w1)) w1)
      in (startResultCollectorIfNeeded w2, deferred))"

text \<open>
  The turns of one instance, chosen by the scheduler and the provider: a caller
  enqueues a call, a collector's \<open>receiveMessage\<close> settles, or the oldest queued
  callback runs. \<open>run\<close> performs a list of turns.
\<close>

datatype event = Enqueue string | Receive "Message list option outcome" | Timer

fun step :: "(string \<Rightarrow> error + 'v FunctionReturn option) \<Rightarrow> event \<Rightarrow> 'v world \<Rightarrow> 'v world" where
  "step JSON_parse (Enqueue callId) w = fst (enqueueCallRequest callId w)"
| "step JSON_parse (Receive response) w =
     (if collectors w = 0 then w else resultCollector_resume response w)"
| "step JSON_parse Timer w =
     (case timers w of
        [] \<Rightarrow> w
      | ResolvePromises results # ts \<Rightarrow> resolvePromises JSON_parse results (w\<lparr>timers := ts\<rparr>)
      | StartResultCollectorIfNeeded # ts \<Rightarrow> startResultCollectorIfNeeded (w\<lparr>timers := ts\<rparr>))"

fun run :: "(string \<Rightarrow> error + 'v FunctionReturn option) \<Rightarrow> event list \<Rightarrow> 'v world \<Rightarrow> 'v world" where
  "run JSON_parse [] w = w"
| "run JSON_parse (e # es) w = run JSON_parse es (step JSON_parse e w)"

text \<open>
  A turn is quiet unless it delivers a stop message or the failure of
  \<open>receiveMessage\<close> to a collector.
\<close>

fun quiet :: "event \<Rightarrow> bool" where
  "quiet (Receive (Failure code)) = False"
| "quiet (Receive (Success received)) =
     (case received of None \<Rightarrow> True | Some ms \<Rightarrow> list_all (\<lambda>m. \<not> isQueueStopMessage m) ms)"
| "quiet _ = True"

text \<open>
  A reply, by the wire format: not a stop message, a \<open>CallId\<close> attribute with a
  non-empty string, and a body that \<open>JSON.parse\<close> accepts. \<open>reply_CallId\<close> reads the
  attribute.
\<close>

definition reply_CallId :: "Message \<Rightarrow> string option" where
  "reply_CallId m =
     (case MessageAttributes m of
        None \<Rightarrow> None
      | Some attrs \<Rightarrow> (case map_of attrs ''CallId'' of None \<Rightarrow> None | Some StringValue \<Rightarrow> StringValue))"

definition is_reply :: "(string \<Rightarrow> error + 'v FunctionReturn option) \<Rightarrow> Message \<Rightarrow> bool" where
  "is_reply JSON_parse m =
     (\<not> isQueueStopMessage m \<and> truthy (reply_CallId m) \<and> truthy (Body m)
      \<and> \<not> isl (JSON_parse (the (Body m))))"

text \<open>
  What the \<open>for\<close> loop collects from a batch of replies, and the map it leaves: used
  to reason about \<open>for_messages\<close>.
\<close>

fun results_of :: "Message list \<Rightarrow> (string \<times> nat) list \<Rightarrow> CallResults list" where
  "results_of [] m = []"
| "results_of (msg # rest) m =
     \<lparr> CallId = reply_CallId msg, message = msg, deferred = Map_get m (reply_CallId msg) \<rparr>
     # results_of rest (Map_delete m (reply_CallId msg))"

fun remaining :: "Message list \<Rightarrow> (string \<times> nat) list \<Rightarrow> (string \<times> nat) list" where
  "remaining [] m = m"
| "remaining (msg # rest) m = remaining rest (Map_delete m (reply_CallId msg))"

section \<open>Dispatch\<close>

text \<open>
  \<open>FunctionCall\<close>: the fields \<open>name\<close>, \<open>args\<close>, \<open>CallId\<close> and \<open>ResponseQueueUrl\<close>. The response
  of \<open>lambda.invoke\<close> with the fields the code reads. \<open>rawResponse\<close> is that response in
  direct mode and the reply message in queue mode.
\<close>

datatype 'a FunctionCall = FunctionCall string 'a string "string option"

record InvocationResponse =
  FunctionError :: "string option"
  LogResult :: "string option"
  Payload :: "string option"

datatype rawResponse = LambdaResponse InvocationResponse | QueueMessage Message

text \<open>
  An \<open>Error\<close> object: its \<open>name\<close>, its \<open>message\<close>, and its \<open>stack\<close>, which is the one
  captured by \<open>new Error\<close> unless the code assigns it. \<open>new Error(undefined)\<close> has the
  empty message.
\<close>

datatype stack = Captured | Assigned "string option"

datatype ErrorObject = ErrorObject "string option" string stack

definition newError :: "string option \<Rightarrow> ErrorObject" where
  "newError msg = ErrorObject (Some ''Error'') (case msg of None \<Rightarrow> [] | Some m \<Rightarrow> m) Captured"

text \<open>
  The result \<open>rv\<close> of a call: \<open>{ value, error, rawResponse }\<close>. A \<open>value\<close> of \<open>None\<close> is
  \<open>false\<close> or the falsy \<open>returned\<close>.
\<close>

record 'v Response =
  rv_value :: "'v jsvalue option"
  rv_error :: "ErrorObject option"
  rv_rawResponse :: rawResponse

text \<open>
  The end of \<open>responsifedFunc\<close>, from \<open>if (returned && returned.type === "error")\<close>:
  \<open>error0\<close> is the \<open>error\<close> set before it. Reading \<open>message\<close> of a nullish \<open>value\<close>
  throws.
\<close>

definition make_response ::
  "'v FunctionReturn option \<Rightarrow> ErrorObject option \<Rightarrow> rawResponse \<Rightarrow> error + 'v Response"
where
  "make_response returned error0 raw =
     (case (case returned of
              None \<Rightarrow> Inr error0
            | Some (FunctionReturn t errValue) \<Rightarrow>
                (if t = Some ''error''
                 then (case errValue of
                         Nullish \<Rightarrow> Inl (TypeError ''message'')
                       | Object msg nm stk rest \<Rightarrow>
                           Inr (Some (ErrorObject nm (case msg of None \<Rightarrow> [] | Some m \<Rightarrow> m)
                                        (Assigned stk))))
                 else Inr error0)) of
        Inl err \<Rightarrow> Inl err
      | Inr err \<Rightarrow>
          Inr \<lparr> rv_value = (if err \<noteq> None then None
                             else (case returned of None \<Rightarrow> None | Some r \<Rightarrow> Some (val r))),
                rv_error = err, rv_rawResponse = raw \<rparr>)"

text \<open>
  What one call meets: the outcome of \<open>sns.publish\<close>, how the promise of its result
  slot settles (the collector's doing), and the outcome of \<open>lambda.invoke\<close>.
\<close>

record 'v invoke_env =
  publish :: "unit outcome"
  responsePromise :: "'v settlement"
  lambda_invoke :: "InvocationResponse outcome"

text \<open>
  \<open>cloudifyWithResponse(state, fn)(...args)\<close> with \<open>callId\<close> the value of \<open>uuidv4()\<close>. The
  world returned is the one its first turn leaves, with the actions of the whole call
  appended to the trace in order.
\<close>

definition cloudifyWithResponse ::
  "('a FunctionCall \<Rightarrow> string) \<Rightarrow> (string \<Rightarrow> error + 'v FunctionReturn option) \<Rightarrow> 'v invoke_env
     \<Rightarrow> string \<Rightarrow> 'a \<Rightarrow> string \<Rightarrow> 'v world \<Rightarrow> 'v world \<times> (error + 'v Response)"
where
  "cloudifyWithResponse JSON_stringify JSON_parse env fn_name args callId w =
     (let r = resources (state_of w);
          callArgsStr = JSON_stringify (FunctionCall fn_name args callId (ResponseQueueUrl r))
      in if useQueue (state_of w) = Some True
         then (case enqueueCallRequest callId w of
                 (w1, d) \<Rightarrow>
                   (let w2 = emit [Call (SnsPublish (RequestTopicArn r) callArgsStr)] w1
                    in case promise (publish env) of
                         Inl err \<Rightarrow> (w2, Inl err)
                       | Inr snsResponse \<Rightarrow>
                           (let w3 = emit [Await (Slot d)] w2
                            in case responsePromise env of
                                 Rejected err \<Rightarrow> (w3, Inl err)
                               | Resolved (QueuedResponse returned msg) \<Rightarrow>
                                   (w3, make_response returned None (QueueMessage msg)))))
         else (let w1 = emit [Call (LambdaInvoke (FunctionName r) callArgsStr)] w
               in case promise (lambda_invoke env) of
                    Inl err \<Rightarrow> (w1, Inl err)
                  | Inr rawResponse \<Rightarrow>
                      (let error0 = (if truthy (FunctionError rawResponse)
                                     then Some (newError (Payload rawResponse)) else None)
                       in case (if error0 \<noteq> None then Inr None
                                else if \<not> truthy (Payload rawResponse) then Inr None
                                else JSON_parse (the (Payload rawResponse))) of
                            Inl err \<Rightarrow> (w1, Inl err)
                          | Inr returned \<Rightarrow>
                              (w1, make_response returned error0 (LambdaResponse rawResponse)))))"

section \<open>Reading traces\<close>

text \<open>\<open>before a b tr\<close>: the action \<open>a\<close> occurs in \<open>tr\<close> ahead of the first \<open>b\<close>.\<close>

definition before :: "action \<Rightarrow> action \<Rightarrow> action list \<Rightarrow> bool" where
  "before a b tr = (a \<in> set (takeWhile (\<lambda>x. x \<noteq> b) tr))"

text \<open>The requests that remove something at the provider, and the actions sending one.\<close>

fun deletes :: "request \<Rightarrow> bool" where
  "deletes (Via c r) = deletes r"
| "deletes (IamDetachRolePolicy _ _) = True"
| "deletes (IamDeleteRolePolicy _ _) = True"
| "deletes (IamDeleteRole _) = True"
| "deletes (SqsDeleteQueue _) = True"
| "deletes (SnsUnsubscribe _) = True"
| "deletes (SnsDeleteTopic _) = True"
| "deletes (LambdaDeleteFunction _) = True"
| "deletes (LogsDeleteLogGroup _) = True"
| "deletes _ = False"

fun deletion :: "action \<Rightarrow> bool" where
  "deletion (Call r) = deletes r"
| "deletion (Start r) = deletes r"
| "deletion _ = False"

fun iam_operation :: "request \<Rightarrow> bool" where
  "iam_operation (Via c r) = iam_operation r"
| "iam_operation (IamGetRole _) = True"
| "iam_operation (IamCreateRole _ _ _) = True"
| "iam_operation (IamAttachRolePolicy _ _) = True"
| "iam_operation (IamPutRolePolicy _ _) = True"
| "iam_operation (IamListAttachedRolePolicies _) = True"
| "iam_operation (IamDetachRolePolicy _ _) = True"
| "iam_operation (IamListRolePolicies _) = True"
| "iam_operation (IamDeleteRolePolicy _ _) = True"
| "iam_operation (IamDeleteRole _) = True"
| "iam_operation _ = False"

fun iam_request :: "action \<Rightarrow> bool" where
  "iam_request (Call r) = iam_operation r"
| "iam_request (Start r) = iam_operation r"
| "iam_request _ = False"

text \<open>
  \<open>sent_in r a\<close>: if the action \<open>a\<close> sends a request, it does so on a client for the
  region \<open>r\<close>.
\<close>

fun sent_in :: "string \<Rightarrow> action \<Rightarrow> bool" where
  "sent_in r (Call (Via c q)) = (client_region c = r)"
| "sent_in r (Start (Via c q)) = (client_region c = r)"
| "sent_in r (Call q) = False"
| "sent_in r (Start q) = False"
| "sent_in r a = True"

section \<open>Example inputs\<close>

definition quiet_provider :: cleanup_env where
  "quiet_provider =
     \<lparr> listAttachedRolePolicies = (\<lambda>name. Success (Some [Some ''arn:aws:iam::aws:policy/AdministratorAccess''])),
       listRolePolicies = (\<lambda>name. Success [''cloudify-deny-create-log-group-policy'']),
       respond = (\<lambda>req. Failure ''ResourceNotFoundException''),
       resultCollector_settles = Inr () \<rparr>"

definition queue_resources :: AWSResources where
  "queue_resources =
     \<lparr> FunctionName = Some ''cloudify-1'', RoleName = Some ''cloudify-cached-lambda-role'',
       RequestTopicArn = Some ''arn:topic'', ResponseQueueUrl = Some ''url:responses'',
       DeadLetterQueueUrl = Some ''url:dlq'', rolePolicy = Some createOrReuseCachedRole,
       logGroupName = Some ''/aws/lambda/cloudify-1'', region = Some ''us-west-1'',
       SNSLambdaSubscriptionArn = Some ''arn:subscription'',
       SNSFeedbackRole = Some ''cloudify-cached-SNSFeedbackRole'' \<rparr>"

definition collecting_state :: State where
  "collecting_state =
     \<lparr> resources = queue_resources, services = createAWSApis ''us-west-1'',
       useQueue = Some True, callResultPromises = [(''call-1'', 0)],
       resultCollectorPromise = True \<rparr>"

definition reply :: "string \<Rightarrow> string \<Rightarrow> Message" where
  "reply callId body =
     \<lparr> MessageId = Some ''m-1'', ReceiptHandle = Some ''h-1'', Body = Some body,
       MessageAttributes = Some [(''CallId'', Some callId)] \<rparr>"

definition stop_message :: Message where
  "stop_message =
     \<lparr> MessageId = Some ''m-0'', ReceiptHandle = Some ''h-0'', Body = Some ''empty'',
       MessageAttributes = Some [(''cloudify'', Some ''stop'')] \<rparr>"

definition idle_state :: State where
  "idle_state = collecting_state\<lparr>callResultPromises := [], resultCollectorPromise := False\<rparr>"

definition idle_world :: "nat world" where
  "idle_world = initial_world idle_state"

definition parse_five :: "string \<Rightarrow> error + nat FunctionReturn option" where
  "parse_five body = Inr (Some (FunctionReturn (Some ''value'') (Object None None None 5)))"

definition two_calls :: "nat world" where
  "two_calls = run parse_five [Enqueue ''call-1'', Enqueue ''call-2''] idle_world"

definition two_replies :: "Message list" where
  "two_replies = [reply ''call-2'' ''{}'', reply ''call-9'' ''{}'']"

definition reply_env :: "nat invoke_env" where
  "reply_env =
     \<lparr> publish = Success (),
       responsePromise = Resolved (QueuedResponse
         (Some (FunctionReturn (Some ''error'')
                  (Object (Some ''x'') (Some ''TypeError'') (Some ''at boom'') 0)))
         (reply ''call-1'' ''{}'')),
       lambda_invoke = Success \<lparr> FunctionError = None, LogResult = None,
                                  Payload = Some ''{}'' \<rparr> \<rparr>"

definition stringify_call :: "nat list FunctionCall \<Rightarrow> string" where
  "stringify_call c = ''{}''"

section \<open>Properties of readiness polling\<close>

lemma poll_attempts_all_fail:
  "(\<forall>j. i \<le> j \<and> j < n \<longrightarrow> quietly (fn j) = None) \<Longrightarrow>
   poll_attempts i n req fn =
     (concat (replicate (n - i) [Call req, Sleep 1000]),
      Inl (Error ''Polling failed for ${description}''))"
proof (induction i n req fn rule: poll_attempts.induct)
  case (1 i n req fn)
  show ?case
  proof (cases "i < n")
    case False
    then show ?thesis by (subst poll_attempts.simps) simp
  next
    case True
    with "1.prems" have q: "quietly (fn i) = None" by simp
    have ih: "poll_attempts (Suc i) n req fn =
        (concat (replicate (n - Suc i) [Call req, Sleep 1000]),
         Inl (Error ''Polling failed for ${description}''))"
      using "1.IH"[OF True q] "1.prems" by simp
    from True have n: "n - i = Suc (n - Suc i)" by simp
    show ?thesis
      by (subst poll_attempts.simps) (simp add: True q ih n)
  qed
qed

lemma poll_attempts_first_success:
  "i \<le> k \<Longrightarrow> k < n \<Longrightarrow> fn k = Success x \<Longrightarrow>
   (\<forall>j. i \<le> j \<and> j < k \<longrightarrow> quietly (fn j) = None) \<Longrightarrow>
   poll_attempts i n req fn =
     (concat (replicate (k - i) [Call req, Sleep 1000]) @ [Call req], Inr (Some x))"
proof (induction i n req fn rule: poll_attempts.induct)
  case (1 i n req fn)
  from "1.prems" have lt: "i < n" by simp
  show ?case
  proof (cases "i = k")
    case True
    with "1.prems" have "quietly (fn i) = Some x" by (simp add: quietly_def)
    with lt True show ?thesis by (subst poll_attempts.simps) simp
  next
    case False
    with "1.prems" have ik: "i < k" by simp
    with "1.prems" have q: "quietly (fn i) = None" by simp
    have ih: "poll_attempts (Suc i) n req fn =
        (concat (replicate (k - Suc i) [Call req, Sleep 1000]) @ [Call req], Inr (Some x))"
      using "1.IH"[OF lt q] "1.prems" ik by simp
    from ik have k: "k - i = Suc (k - Suc i)" by simp
    show ?thesis
      by (subst poll_attempts.simps) (simp add: lt q ih k)
  qed
qed

lemma poll_attempts_result:
  "(\<exists>x. snd (poll_attempts i n req fn) = Inr (Some x)) \<or>
   snd (poll_attempts i n req fn) = Inl (Error ''Polling failed for ${description}'')"
proof (induction i n req fn rule: poll_attempts.induct)
  case (1 i n req fn)
  show ?case
  proof (cases "i < n")
    case False
    then show ?thesis by (subst (1 2) poll_attempts.simps) simp
  next
    case True
    show ?thesis
    proof (cases "quietly (fn i)")
      case (Some r)
      with True show ?thesis by (subst (1 2) poll_attempts.simps) simp
    next
      case None
      from "1.IH"[OF True None] True None show ?thesis
        by (subst (1 2) poll_attempts.simps) (auto split: prod.splits)
    qed
  qed
qed

lemma poll_attempts_count:
  "length (filter (\<lambda>a. a = Call req) (fst (poll_attempts i n req fn))) \<le> n - i"
proof (induction i n req fn rule: poll_attempts.induct)
  case (1 i n req fn)
  show ?case
  proof (cases "i < n")
    case False
    then show ?thesis by (subst poll_attempts.simps) simp
  next
    case True
    show ?thesis
    proof (cases "quietly (fn i)")
      case (Some r)
      with True show ?thesis by (subst poll_attempts.simps) simp
    next
      case None
      from "1.IH"[OF True None] True None show ?thesis
        by (subst poll_attempts.simps) (auto split: prod.splits)
    qed
  qed
qed

lemma pollAWSRequest_result:
  "(\<exists>x. snd (pollAWSRequest n d req fn) = Inr (Some x)) \<or>
   snd (pollAWSRequest n d req fn) = Inl (Error ''Polling failed for ${description}'')"
  using poll_attempts_result[of 0 n req fn]
  by (auto simp: pollAWSRequest_def split: prod.splits)

lemma pollAWSRequest_all_fail:
  assumes "\<forall>j<n. \<exists>code. fn j = Failure code"
  shows "pollAWSRequest n d req fn =
      (Sleep 2000 # concat (replicate n [Call req, Sleep 1000]),
       Inl (Error ''Polling failed for ${description}''))"
proof -
  from assms have "\<forall>j. 0 \<le> j \<and> j < n \<longrightarrow> quietly (fn j) = None"
    by (auto simp: quietly_def)
  then have "poll_attempts 0 n req fn =
      (concat (replicate (n - 0) [Call req, Sleep 1000]),
       Inl (Error ''Polling failed for ${description}''))"
    by (rule poll_attempts_all_fail)
  then show ?thesis by (simp add: pollAWSRequest_def)
qed

text \<open>
  C8. \<open>pollAWSRequest\<close> first sleeps 2000 ms. If attempt \<open>k < n\<close> is the first the
  provider accepts, the attempts before it are each followed by a sleep of 1000 ms and
  the result is that attempt's response. If the provider rejects all \<open>n\<close> attempts
  (whatever the error), the result is the error \<open>Polling failed\<close>, after \<open>n\<close> attempts.
  For every input the request is sent at most \<open>n\<close> times and the call ends with a
  response or with that error. Both call sites pass \<open>n = 100\<close>.
\<close>

theorem pollAWSRequest_bounded:
  "(k < n \<and> fn k = Success x \<and> (\<forall>j<k. \<exists>code. fn j = Failure code) \<longrightarrow>
      pollAWSRequest n d req fn =
        (Sleep 2000 # concat (replicate k [Call req, Sleep 1000]) @ [Call req], Inr (Some x)))
   \<and> ((\<forall>j<n. \<exists>code. fn j = Failure code) \<longrightarrow>
      pollAWSRequest n d req fn =
        (Sleep 2000 # concat (replicate n [Call req, Sleep 1000]),
         Inl (Error ''Polling failed for ${description}'')))
   \<and> length (filter (\<lambda>a. a = Call req) (fst (pollAWSRequest n d req fn))) \<le> n
   \<and> ((\<exists>y. snd (pollAWSRequest n d req fn) = Inr (Some y)) \<or>
      snd (pollAWSRequest n d req fn) = Inl (Error ''Polling failed for ${description}''))"
proof (intro conjI impI)
  assume a: "k < n \<and> fn k = Success x \<and> (\<forall>j<k. \<exists>code. fn j = Failure code)"
  then have "\<forall>j. 0 \<le> j \<and> j < k \<longrightarrow> quietly (fn j) = None"
    by (auto simp: quietly_def)
  with a have "poll_attempts 0 n req fn =
      (concat (replicate (k - 0) [Call req, Sleep 1000]) @ [Call req], Inr (Some x))"
    by (intro poll_attempts_first_success) auto
  then show "pollAWSRequest n d req fn =
      (Sleep 2000 # concat (replicate k [Call req, Sleep 1000]) @ [Call req], Inr (Some x))"
    by (simp add: pollAWSRequest_def)
next
  assume "\<forall>j<n. \<exists>code. fn j = Failure code"
  then show "pollAWSRequest n d req fn =
      (Sleep 2000 # concat (replicate n [Call req, Sleep 1000]),
       Inl (Error ''Polling failed for ${description}''))"
    by (rule pollAWSRequest_all_fail)
next
  show "length (filter (\<lambda>a. a = Call req) (fst (pollAWSRequest n d req fn))) \<le> n"
    using poll_attempts_count[of req 0 n fn]
    by (auto simp: pollAWSRequest_def split: prod.splits)
next
  show "(\<exists>y. snd (pollAWSRequest n d req fn) = Inr (Some y)) \<or>
      snd (pollAWSRequest n d req fn) = Inl (Error ''Polling failed for ${description}'')"
    by (rule pollAWSRequest_result)
qed

theorem pollAWSRequest_bounded_witness:
  "pollAWSRequest 100 ''creating function'' (LambdaGetFunction ''f'')
       (\<lambda>i. if i < 2 then Failure ''InvalidParameterValueException'' else Success ()) =
     (Sleep 2000 # concat (replicate 2 [Call (LambdaGetFunction ''f''), Sleep 1000])
        @ [Call (LambdaGetFunction ''f'')], Inr (Some ()))
   \<and> pollAWSRequest 100 ''creating function'' (LambdaGetFunction ''f'')
       (\<lambda>i. (Failure ''Throttled'' :: unit outcome)) =
     (Sleep 2000 # concat (replicate 100 [Call (LambdaGetFunction ''f''), Sleep 1000]),
      Inl (Error ''Polling failed for ${description}''))"
  using pollAWSRequest_bounded[of 2 100
          "\<lambda>i. if i < 2 then Failure ''InvalidParameterValueException'' else Success ()"
          "()" "''creating function''" "LambdaGetFunction ''f''"]
        pollAWSRequest_bounded[of 0 100 "\<lambda>i. (Failure ''Throttled'' :: unit outcome)"
          "()" "''creating function''" "LambdaGetFunction ''f''"]
  by simp

text \<open>
  C10. \<open>createSNSNotifier\<close> never fails with \<open>Could not initialize lambda execution
  role\<close>: once the topic is created it returns the topic's ARN or fails with the
  polling error, and if \<open>createTopic\<close> is rejected it fails with that rejection.
\<close>

theorem createSNSNotifier_check_unreachable:
  "snd (createSNSNotifier Name RoleArn createTopic setTopicAttributes)
     \<noteq> Inl (Error ''Could not initialize lambda execution role'')
   \<and> (createTopic = Success TopicArn \<longrightarrow>
        snd (createSNSNotifier Name RoleArn createTopic setTopicAttributes) = Inr TopicArn \<or>
        snd (createSNSNotifier Name RoleArn createTopic setTopicAttributes)
          = Inl (Error ''Polling failed for ${description}''))
   \<and> (createTopic = Failure code \<longrightarrow>
        snd (createSNSNotifier Name RoleArn createTopic setTopicAttributes)
          = Inl (AWSError code))"
proof -
  have poll: "\<And>arn. (\<exists>x. snd (pollAWSRequest 100
        ''role for SNS invocation of lambda function failure feedback''
        (SnsSetTopicAttributes arn ''LambdaFailureFeedbackRoleArn'' RoleArn)
        setTopicAttributes) = Inr (Some x)) \<or>
      snd (pollAWSRequest 100
        ''role for SNS invocation of lambda function failure feedback''
        (SnsSetTopicAttributes arn ''LambdaFailureFeedbackRoleArn'' RoleArn)
        setTopicAttributes) = Inl (Error ''Polling failed for ${description}'')"
    by (rule pollAWSRequest_result)
  show ?thesis
  proof (cases createTopic)
    case (Failure c)
    then show ?thesis by (simp add: createSNSNotifier_def promise_def)
  next
    case (Success arn)
    with poll[of arn] show ?thesis
      by (auto simp: createSNSNotifier_def promise_def split: prod.splits sum.splits)
  qed
qed

theorem createSNSNotifier_check_unreachable_witness:
  "snd (createSNSNotifier ''cloudify-1-Requests'' ''arn:role'' (Success (Some ''arn:topic''))
          (\<lambda>i. Failure ''InvalidParameter''))
     = Inl (Error ''Polling failed for ${description}'')
   \<and> snd (createSNSNotifier ''cloudify-1-Requests'' ''arn:role'' (Failure ''AuthorizationError'')
          (\<lambda>i. Success ()))
     = Inl (AWSError ''AuthorizationError'')"
proof -
  have "snd (createSNSNotifier ''cloudify-1-Requests'' ''arn:role'' (Success (Some ''arn:topic''))
          (\<lambda>i. Failure ''InvalidParameter'')) \<noteq> Inr (Some ''arn:topic'')"
    by (simp add: createSNSNotifier_def promise_def pollAWSRequest_all_fail)
  then show ?thesis
    using createSNSNotifier_check_unreachable[of "''cloudify-1-Requests''" "''arn:role''"
            "Success (Some ''arn:topic'')" "\<lambda>i. Failure ''InvalidParameter''" "Some ''arn:topic''"]
          createSNSNotifier_check_unreachable[of "''cloudify-1-Requests''" "''arn:role''"
            "Failure ''AuthorizationError''" "\<lambda>i. Success ()" _ "''AuthorizationError''"]
    by simp
qed

section \<open>Properties of teardown\<close>

lemma discard_eq [simp]: "discard req r = [Call req]"
  by (simp add: discard_def split: option.splits)

lemma quietly_delete_eq [simp]: "quietly_delete env req = [Call req]"
  by (simp add: quietly_delete_def)

lemma deleteRole_respond [simp]:
  "deleteRole (env\<lparr>respond := answers\<rparr>) name c = deleteRole env name c"
  by (simp add: deleteRole_def)

lemma deleteRole_iam:
  "\<forall>a \<in> set (deleteRole env name c). a \<noteq> Await Requests \<longrightarrow> iam_request a"
  by (auto simp: deleteRole_def Let_def)

lemma deleteRole_sent_in: "client_region c = r \<Longrightarrow> list_all (sent_in r) (deleteRole env name c)"
  by (auto simp: deleteRole_def Let_def list_all_iff)

lemma createAWSApis_region [simp]:
  "client_region (lambda (createAWSApis r)) = r"
  "client_region (cloudwatch (createAWSApis r)) = r"
  "client_region (iam (createAWSApis r)) = r"
  "client_region (sqs (createAWSApis r)) = r"
  "client_region (sns (createAWSApis r)) = r"
  by (simp_all add: createAWSApis_def)

lemma cleanup_trace:
  "fst (cleanup env state) =
     cleanup_unsubscribe env state @ fst (cancelWithoutCleanup env state)
     @ cleanup_function_and_roles env state @ [Await Cancel]
     @ (case snd (cancelWithoutCleanup env state) of
          Inl err \<Rightarrow> [] | Inr _ \<Rightarrow> cleanup_topic_and_queues env state)"
  by (simp add: cleanup_def Let_def split: prod.splits sum.splits)

lemma cleanup_result: "snd (cleanup env state) = snd (cancelWithoutCleanup env state)"
  by (simp add: cleanup_def Let_def split: prod.splits sum.splits)

lemma cleanup_sent_in:
  assumes "services state = createAWSApis r"
  shows "list_all (sent_in r) (fst (cleanup env state))"
proof -
  have u: "list_all (sent_in r) (cleanup_unsubscribe env state)"
    using assms by (simp add: cleanup_unsubscribe_def Let_def)
  have c: "list_all (sent_in r) (fst (cancelWithoutCleanup env state))"
    using assms by (simp add: cancelWithoutCleanup_def Let_def)
  have f: "list_all (sent_in r) (cleanup_function_and_roles env state)"
    using assms by (simp add: cleanup_function_and_roles_def Let_def deleteRole_sent_in)
  have t: "list_all (sent_in r) (cleanup_topic_and_queues env state)"
    using assms by (simp add: cleanup_topic_and_queues_def Let_def)
  show ?thesis
    by (cases "snd (cancelWithoutCleanup env state)") (simp_all add: cleanup_trace u c f t)
qed




section \<open>Properties of teardown from a manifest\<close>

lemma cleanup_without_collector_deletions:
  assumes "resources m = resources state" and "services m = services state"
    and "\<not> resultCollectorPromise m"
  shows "\<exists>rest. filter deletion (fst (cleanup env m))
                 = filter deletion (fst (cleanup env state)) @ rest"
proof -
  have u: "cleanup_unsubscribe env m = cleanup_unsubscribe env state"
    unfolding cleanup_unsubscribe_def assms(1,2) ..
  have f: "cleanup_function_and_roles env m = cleanup_function_and_roles env state"
    unfolding cleanup_function_and_roles_def assms(1,2) ..
  have t: "cleanup_topic_and_queues env m = cleanup_topic_and_queues env state"
    unfolding cleanup_topic_and_queues_def assms(1,2) ..
  have s1: "filter deletion (fst (cancelWithoutCleanup env state)) = []"
    by (simp add: cancelWithoutCleanup_def Let_def)
  have s2: "filter deletion (fst (cancelWithoutCleanup env m)) = []"
    by (simp add: cancelWithoutCleanup_def Let_def)
  have r: "snd (cancelWithoutCleanup env m) = Inr ()"
    using assms by (simp add: cancelWithoutCleanup_def Let_def)
  show ?thesis
    by (cases "snd (cancelWithoutCleanup env state)")
       (simp_all add: cleanup_trace u f t s1 s2 r)
qed

text \<open>
  C9. \<open>cleanupResources\<close> parses the text. When the parsed manifest has no \<open>region\<close>
  (or an empty one) the call itself throws \<open>Resources missing 'region'\<close>. Otherwise it
  returns the promise of \<open>cleanup\<close> on a state made of the manifest, the clients
  \<open>createAWSApis\<close> makes for the manifest's region, an empty map of pending calls and no
  collector. Every request of that \<open>cleanup\<close> is made on a client for the manifest's
  region; the \<open>cleanup\<close> is not rejected; and its deletions extend those of \<open>cleanup\<close> on
  any live state with the same manifest and clients, in particular the state whose
  \<open>getResourceList\<close> was parsed (\<open>initialize\<close> makes the clients of a state for the region
  it records).
\<close>

theorem cleanupResources_contract:
  "(JSON_parse resourceString = Inr (Some rs) \<and> (region rs = None \<or> region rs = Some []) \<longrightarrow>
      cleanupResources JSON_parse env resourceString =
        Throws (Error (''Resources missing '' @ [CHR 0x27] @ ''region'' @ [CHR 0x27])))
   \<and> (JSON_parse resourceString = Inr (Some rs) \<and> region rs = Some r \<and> r \<noteq> [] \<longrightarrow>
      cleanupResources JSON_parse env resourceString =
        Returns (cleanup env \<lparr> resources = rs, services = createAWSApis r, useQueue = None,
                                callResultPromises = [], resultCollectorPromise = False \<rparr>)
      \<and> list_all (sent_in r)
           (fst (cleanup env \<lparr> resources = rs, services = createAWSApis r, useQueue = None,
                               callResultPromises = [], resultCollectorPromise = False \<rparr>))
      \<and> snd (cleanup env \<lparr> resources = rs, services = createAWSApis r, useQueue = None,
                             callResultPromises = [], resultCollectorPromise = False \<rparr>) = Inr ()
      \<and> (\<forall>state. resources state = rs \<and> services state = createAWSApis r \<longrightarrow>
           (\<exists>rest. filter deletion
                      (fst (cleanup env \<lparr> resources = rs, services = createAWSApis r,
                              useQueue = None, callResultPromises = [],
                              resultCollectorPromise = False \<rparr>))
                    = filter deletion (fst (cleanup env state)) @ rest)))
   \<and> (JSON_parse (getResourceList JSON_stringify live) = Inr (Some (resources live))
        \<and> region (resources live) = Some r \<and> r \<noteq> [] \<and> services live = createAWSApis r \<longrightarrow>
      (\<exists>tr rest. cleanupResources JSON_parse env (getResourceList JSON_stringify live)
                   = Returns (tr, Inr ())
                 \<and> list_all (sent_in r) tr
                 \<and> filter deletion tr = filter deletion (fst (cleanup env live)) @ rest))"
proof (intro conjI impI)
  assume "JSON_parse resourceString = Inr (Some rs) \<and> (region rs = None \<or> region rs = Some [])"
  then show "cleanupResources JSON_parse env resourceString =
        Throws (Error (''Resources missing '' @ [CHR 0x27] @ ''region'' @ [CHR 0x27]))"
    by (auto simp: cleanupResources_def truthy_def)
next
  assume a: "JSON_parse resourceString = Inr (Some rs) \<and> region rs = Some r \<and> r \<noteq> []"
  then show "cleanupResources JSON_parse env resourceString =
        Returns (cleanup env \<lparr> resources = rs, services = createAWSApis r, useQueue = None,
                                callResultPromises = [], resultCollectorPromise = False \<rparr>)"
    by (simp add: cleanupResources_def truthy_def)
  show "list_all (sent_in r)
           (fst (cleanup env \<lparr> resources = rs, services = createAWSApis r, useQueue = None,
                               callResultPromises = [], resultCollectorPromise = False \<rparr>))"
    by (rule cleanup_sent_in) simp
  show "snd (cleanup env \<lparr> resources = rs, services = createAWSApis r, useQueue = None,
                             callResultPromises = [], resultCollectorPromise = False \<rparr>) = Inr ()"
    by (simp add: cleanup_result cancelWithoutCleanup_def Let_def)
  show "\<forall>state. resources state = rs \<and> services state = createAWSApis r \<longrightarrow>
           (\<exists>rest. filter deletion
                      (fst (cleanup env \<lparr> resources = rs, services = createAWSApis r,
                              useQueue = None, callResultPromises = [],
                              resultCollectorPromise = False \<rparr>))
                    = filter deletion (fst (cleanup env state)) @ rest)"
    by (intro allI impI cleanup_without_collector_deletions) simp_all
next
  assume a: "JSON_parse (getResourceList JSON_stringify live) = Inr (Some (resources live))
        \<and> region (resources live) = Some r \<and> r \<noteq> [] \<and> services live = createAWSApis r"
  define m where "m = \<lparr> resources = resources live,
      services = createAWSApis r, useQueue = None,
      callResultPromises = [], resultCollectorPromise = False \<rparr>"
  from a have c: "cleanupResources JSON_parse env (getResourceList JSON_stringify live)
      = Returns (cleanup env m)"
    by (simp add: cleanupResources_def m_def truthy_def)
  have r: "snd (cleanup env m) = Inr ()"
    by (simp add: cleanup_result cancelWithoutCleanup_def m_def Let_def)
  have s: "list_all (sent_in r) (fst (cleanup env m))"
    by (rule cleanup_sent_in) (simp add: m_def)
  obtain rest where d: "filter deletion (fst (cleanup env m))
      = filter deletion (fst (cleanup env live)) @ rest"
    using cleanup_without_collector_deletions[of m live env] a by (auto simp: m_def)
  show "\<exists>tr rest. cleanupResources JSON_parse env (getResourceList JSON_stringify live)
                   = Returns (tr, Inr ())
                 \<and> list_all (sent_in r) tr
                 \<and> filter deletion tr = filter deletion (fst (cleanup env live)) @ rest"
    using c r s d by (metis prod.collapse)
qed

theorem cleanupResources_contract_witness:
  "cleanupResources (\<lambda>t. Inr (Some (queue_resources\<lparr>region := None\<rparr>))) quiet_provider ''{}''
     = Throws (Error (''Resources missing '' @ [CHR 0x27] @ ''region'' @ [CHR 0x27]))
   \<and> cleanupResources (\<lambda>t. Inr (Some queue_resources)) quiet_provider ''{}''
     = Returns (cleanup quiet_provider
         \<lparr> resources = queue_resources, services = createAWSApis ''us-west-1'', useQueue = None,
           callResultPromises = [], resultCollectorPromise = False \<rparr>)
   \<and> list_all (sent_in ''us-west-1'')
        (fst (cleanup quiet_provider
           \<lparr> resources = queue_resources, services = createAWSApis ''us-west-1'', useQueue = None,
             callResultPromises = [], resultCollectorPromise = False \<rparr>))
   \<and> (\<exists>tr rest. cleanupResources (\<lambda>t. Inr (Some queue_resources)) quiet_provider
          (getResourceList (\<lambda>rs. ''{}'') collecting_state) = Returns (tr, Inr ())
        \<and> list_all (sent_in ''us-west-1'') tr
        \<and> filter deletion tr
            = filter deletion (fst (cleanup quiet_provider collecting_state)) @ rest)"
  using cleanupResources_contract[where JSON_parse = "\<lambda>t. Inr (Some (queue_resources\<lparr>region := None\<rparr>))"
          and resourceString = "''{}''" and rs = "queue_resources\<lparr>region := None\<rparr>"
          and r = "''us-west-1''" and env = quiet_provider
          and JSON_stringify = "\<lambda>rs. ''{}''" and live = collecting_state]
        cleanupResources_contract[where JSON_parse = "\<lambda>t. Inr (Some queue_resources)"
          and resourceString = "''{}''" and rs = queue_resources
          and r = "''us-west-1''" and env = quiet_provider
          and JSON_stringify = "\<lambda>rs. ''{}''" and live = collecting_state]
  by (simp add: queue_resources_def collecting_state_def truthy_def)

section \<open>Properties of the response collector\<close>

lemma emit_simps [simp]:
  "state_of (emit as w) = state_of w" "promises (emit as w) = promises w"
  "timers (emit as w) = timers w" "collectors (emit as w) = collectors w"
  "nextDeferred (emit as w) = nextDeferred w" "trace (emit as w) = trace w @ as"
  "pending (emit as w) = pending w"
  by (simp_all add: emit_def pending_def)

lemma settle_simps [simp]:
  "state_of (settle d s w) = state_of w" "timers (settle d s w) = timers w"
  "collectors (settle d s w) = collectors w" "nextDeferred (settle d s w) = nextDeferred w"
  "trace (settle d s w) = trace w" "pending (settle d s w) = pending w"
  "promises (settle d s w) = (if promises w d = None then (promises w)(d := Some s) else promises w)"
  by (simp_all add: settle_def pending_def)

lemma set_pending_simps [simp]:
  "pending (set_pending m w) = m" "promises (set_pending m w) = promises w"
  "timers (set_pending m w) = timers w" "collectors (set_pending m w) = collectors w"
  "nextDeferred (set_pending m w) = nextDeferred w" "trace (set_pending m w) = trace w"
  "resultCollectorPromise (state_of (set_pending m w)) = resultCollectorPromise (state_of w)"
  "resources (state_of (set_pending m w)) = resources (state_of w)"
  by (simp_all add: set_pending_def pending_def)

lemma set_resultCollectorPromise_simps [simp]:
  "pending (set_resultCollectorPromise b w) = pending w"
  "promises (set_resultCollectorPromise b w) = promises w"
  "timers (set_resultCollectorPromise b w) = timers w"
  "collectors (set_resultCollectorPromise b w) = collectors w"
  "nextDeferred (set_resultCollectorPromise b w) = nextDeferred w"
  "trace (set_resultCollectorPromise b w) = trace w"
  "resultCollectorPromise (state_of (set_resultCollectorPromise b w)) = b"
  "resources (state_of (set_resultCollectorPromise b w)) = resources (state_of w)"
  by (simp_all add: set_resultCollectorPromise_def pending_def)

lemma pending_update_simps [simp]:
  "pending (w\<lparr>timers := ts\<rparr>) = pending w" "pending (w\<lparr>collectors := n\<rparr>) = pending w"
  "pending (w\<lparr>nextDeferred := k\<rparr>) = pending w" "pending (w\<lparr>trace := tr\<rparr>) = pending w"
  "pending (w\<lparr>promises := ps\<rparr>) = pending w"
  by (simp_all add: pending_def)

lemma reject_entries_frame [simp]:
  "state_of (reject_entries es w) = state_of w \<and> timers (reject_entries es w) = timers w
   \<and> collectors (reject_entries es w) = collectors w"
  by (induction es arbitrary: w) auto

lemma reject_entries_pending [simp]: "pending (reject_entries es w) = pending w"
  by (simp add: pending_def)

lemma rejectAll_frame [simp]:
  "state_of (rejectAll w) = state_of w" "timers (rejectAll w) = timers w"
  "collectors (rejectAll w) = collectors w" "pending (rejectAll w) = pending w"
  by (simp_all add: rejectAll_def)

lemma resolvePromises_frame [simp]:
  "state_of (resolvePromises P rs w) = state_of w \<and> timers (resolvePromises P rs w) = timers w
   \<and> collectors (resolvePromises P rs w) = collectors w"
  by (induction rs arbitrary: w) (auto simp: Let_def split: sum.splits option.splits)

lemma resolvePromises_pending [simp]: "pending (resolvePromises P rs w) = pending w"
  by (simp add: pending_def)

text \<open>
  C4, at the failing input. One call is pending; the collector receives its reply and a
  stop message in one batch. The reply takes the slot out of the map, the stop message
  rejects what is left in the map (nothing) and returns before \<open>resolvePromises\<close> is
  queued: the slot's promise stays pending, with an empty map, no queued callback and no
  collector left to settle it.
\<close>

theorem stop_after_reply_leaves_slot_unsettled:
  "promises (run parse_five
       [Enqueue ''call-1'', Receive (Success (Some [reply ''call-1'' ''{}'', stop_message])), Timer]
       idle_world) 0 = None
   \<and> pending (run parse_five
       [Enqueue ''call-1'', Receive (Success (Some [reply ''call-1'' ''{}'', stop_message])), Timer]
       idle_world) = []
   \<and> timers (run parse_five
       [Enqueue ''call-1'', Receive (Success (Some [reply ''call-1'' ''{}'', stop_message])), Timer]
       idle_world) = []
   \<and> collectors (run parse_five
       [Enqueue ''call-1'', Receive (Success (Some [reply ''call-1'' ''{}'', stop_message])), Timer]
       idle_world) = 0"
  by code_simp

text \<open>
  C3, as stated, after one call is enqueued and the collector receives a stop message:
  \<open>rejectAll\<close> rejects the slot and leaves it in the map, so no collector is running
  while the map is not empty.
\<close>

theorem stop_leaves_map_nonempty_counterexample:
  "collectors (run parse_five [Enqueue ''call-1'', Receive (Success (Some [stop_message]))]
       idle_world) = 0
   \<and> pending (run parse_five [Enqueue ''call-1'', Receive (Success (Some [stop_message]))]
       idle_world) \<noteq> []"
  by code_simp


lemma resultCollector_while_nonempty:
  "pending w \<noteq> [] \<Longrightarrow>
   pending (resultCollector_while w) = pending w
   \<and> resultCollectorPromise (state_of (resultCollector_while w)) = resultCollectorPromise (state_of w)
   \<and> collectors (resultCollector_while w) = collectors w
   \<and> timers (resultCollector_while w) = timers w
   \<and> promises (resultCollector_while w) = promises w"
  by (simp add: resultCollector_while_def)

lemma resultCollector_while_empty:
  "pending w = [] \<Longrightarrow>
   pending (resultCollector_while w) = []
   \<and> \<not> resultCollectorPromise (state_of (resultCollector_while w))
   \<and> collectors (resultCollector_while w) = collectors w - 1
   \<and> timers (resultCollector_while w) = timers w @ [StartResultCollectorIfNeeded]
   \<and> promises (resultCollector_while w) = promises w"
  by (simp add: resultCollector_while_def)

lemma Map_set_nonempty [simp]: "Map_set k v m \<noteq> []"
  by (cases m) auto

lemma startResultCollectorIfNeeded_started:
  "pending w \<noteq> [] \<Longrightarrow> \<not> resultCollectorPromise (state_of w) \<Longrightarrow>
   pending (startResultCollectorIfNeeded w) = pending w
   \<and> resultCollectorPromise (state_of (startResultCollectorIfNeeded w))
   \<and> collectors (startResultCollectorIfNeeded w) = collectors w + 1"
  by (simp add: startResultCollectorIfNeeded_def resultCollector_call_def
      resultCollector_while_nonempty)

lemma startResultCollectorIfNeeded_idle:
  "pending w = [] \<or> resultCollectorPromise (state_of w) \<Longrightarrow> startResultCollectorIfNeeded w = w"
  by (auto simp: startResultCollectorIfNeeded_def)

lemma for_messages_quiet:
  "list_all (\<lambda>m. \<not> isQueueStopMessage m) ms \<Longrightarrow> fst (for_messages ms acc pm) \<noteq> Stop"
  by (induction ms arbitrary: acc pm) (auto split: option.splits)


lemma enqueueCallRequest_view:
  "pending (fst (enqueueCallRequest c w)) \<noteq> []
   \<and> resultCollectorPromise (state_of (fst (enqueueCallRequest c w)))
   \<and> collectors (fst (enqueueCallRequest c w)) =
       (if resultCollectorPromise (state_of w) then collectors w else collectors w + 1)"
proof -
  define w2 where "w2 = emit [Register c (nextDeferred w)]
      (set_pending (Map_set c (nextDeferred w) (pending (w\<lparr>nextDeferred := Suc (nextDeferred w)\<rparr>)))
         (w\<lparr>nextDeferred := Suc (nextDeferred w)\<rparr>))"
  have e: "fst (enqueueCallRequest c w) = startResultCollectorIfNeeded w2"
    by (simp add: enqueueCallRequest_def Let_def w2_def)
  have p: "pending w2 \<noteq> []" and h: "resultCollectorPromise (state_of w2) = resultCollectorPromise (state_of w)"
    and c: "collectors w2 = collectors w"
    by (simp_all add: w2_def)
  show ?thesis
  proof (cases "resultCollectorPromise (state_of w)")
    case True
    with h have "startResultCollectorIfNeeded w2 = w2"
      by (simp add: startResultCollectorIfNeeded_idle)
    with p h c True show ?thesis by (simp add: e)
  next
    case False
    with h p startResultCollectorIfNeeded_started[of w2] c show ?thesis by (simp add: e)
  qed
qed

lemma resultCollector_resume_failure:
  "collectors (resultCollector_resume (Failure code) w) = collectors w - 1
   \<and> state_of (resultCollector_resume (Failure code) w) = state_of w
   \<and> promises (resultCollector_resume (Failure code) w) = promises w"
  by (simp add: resultCollector_resume_def promise_def)

lemma resultCollector_body_view:
  "(pending (resultCollector_body Messages w) \<noteq> []
      \<and> collectors (resultCollector_body Messages w) = collectors w
      \<and> resultCollectorPromise (state_of (resultCollector_body Messages w))
          = resultCollectorPromise (state_of w))
   \<or> (collectors (resultCollector_body Messages w) = collectors w - 1
      \<and> \<not> resultCollectorPromise (state_of (resultCollector_body Messages w))
      \<and> (list_all (\<lambda>m. \<not> isQueueStopMessage m) Messages \<longrightarrow>
           pending (resultCollector_body Messages w) = []
           \<and> timers (resultCollector_body Messages w) \<noteq> []
           \<and> last (timers (resultCollector_body Messages w)) = StartResultCollectorIfNeeded))"
proof -
  define w1 where "w1 = emit (Log (''received '' @ decimal (length Messages) @ '' messages.'')
      # deleteSQSMessages (ResponseQueueUrl (resources (state_of w))) Messages) w"
  have q: "list_all (\<lambda>m. \<not> isQueueStopMessage m) Messages \<Longrightarrow>
      fst (for_messages Messages [] (pending w)) \<noteq> Stop"
    by (rule for_messages_quiet)
  obtain ex m where f: "for_messages Messages [] (pending w) = (ex, m)"
    by (cases "for_messages Messages [] (pending w)")
  show ?thesis
  proof (cases ex)
    case Stop
    with f have "resultCollector_body Messages w =
        (set_resultCollectorPromise False (rejectAll (set_pending m w1)))
          \<lparr>collectors := collectors w - 1\<rparr>"
      by (simp add: resultCollector_body_def Let_def w1_def)
    with q f Stop show ?thesis by auto
  next
    case (Throw err)
    define w2 where "w2 = emit [LogError err] (set_pending m w1)"
    have r: "resultCollector_body Messages w = resultCollector_while w2"
      using f Throw by (simp add: resultCollector_body_def Let_def w1_def w2_def)
    have v: "collectors w2 = collectors w"
      "resultCollectorPromise (state_of w2) = resultCollectorPromise (state_of w)"
      by (simp_all add: w2_def w1_def)
    show ?thesis
    proof (cases "pending w2 = []")
      case True
      from resultCollector_while_empty[OF True] v show ?thesis by (simp add: r)
    next
      case False
      from resultCollector_while_nonempty[OF False] v False show ?thesis by (simp add: r)
    qed
  next
    case (Finished rs)
    define w2 where "w2 = (emit [SetTimeout] (set_pending m w1))\<lparr>timers := timers w @ [ResolvePromises rs]\<rparr>"
    have r: "resultCollector_body Messages w = resultCollector_while w2"
      using f Finished by (simp add: resultCollector_body_def Let_def w1_def w2_def)
    have v: "collectors w2 = collectors w"
      "resultCollectorPromise (state_of w2) = resultCollectorPromise (state_of w)"
      by (simp_all add: w2_def w1_def)
    show ?thesis
    proof (cases "pending w2 = []")
      case True
      from resultCollector_while_empty[OF True] v show ?thesis by (simp add: r)
    next
      case False
      from resultCollector_while_nonempty[OF False] v False show ?thesis by (simp add: r)
    qed
  qed
qed

lemma resultCollector_resume_success:
  "(pending (resultCollector_resume (Success received) w) \<noteq> []
      \<and> collectors (resultCollector_resume (Success received) w) = collectors w
      \<and> resultCollectorPromise (state_of (resultCollector_resume (Success received) w))
          = resultCollectorPromise (state_of w))
   \<or> (collectors (resultCollector_resume (Success received) w) = collectors w - 1
      \<and> \<not> resultCollectorPromise (state_of (resultCollector_resume (Success received) w))
      \<and> (quiet (Receive (Success received)) \<longrightarrow>
           pending (resultCollector_resume (Success received) w) = []
           \<and> timers (resultCollector_resume (Success received) w) \<noteq> []
           \<and> last (timers (resultCollector_resume (Success received) w))
               = StartResultCollectorIfNeeded))"
proof -
  have r: "resultCollector_resume (Success received) w =
      resultCollector_body (case received of None \<Rightarrow> [] | Some ms \<Rightarrow> ms) w"
    by (simp add: resultCollector_resume_def promise_def)
  have q: "quiet (Receive (Success received)) \<Longrightarrow>
      list_all (\<lambda>m. \<not> isQueueStopMessage m) (case received of None \<Rightarrow> [] | Some ms \<Rightarrow> ms)"
    by (cases received) simp_all
  from resultCollector_body_view[of "case received of None \<Rightarrow> [] | Some ms \<Rightarrow> ms" w] q
  show ?thesis unfolding r by blast
qed

lemma step_invariant:
  assumes "collectors w \<le> 1"
    and "collectors w = 1 \<longrightarrow> resultCollectorPromise (state_of w) \<and> pending w \<noteq> []"
  shows "collectors (step P e w) \<le> 1
     \<and> (collectors (step P e w) = 1 \<longrightarrow>
          resultCollectorPromise (state_of (step P e w)) \<and> pending (step P e w) \<noteq> [])"
proof (cases e)
  case (Enqueue c)
  with assms enqueueCallRequest_view[of c w] show ?thesis by auto
next
  case (Receive r)
  show ?thesis
  proof (cases "collectors w = 0")
    case True
    with Receive assms show ?thesis by simp
  next
    case False
    with assms have one: "collectors w = 1" by simp
    show ?thesis
    proof (cases r)
      case (Failure code)
      with Receive one resultCollector_resume_failure[of code w] show ?thesis by simp
    next
      case (Success received)
      with Receive one assms resultCollector_resume_success[of received w] show ?thesis by auto
    qed
  qed
next
  case Timer
  show ?thesis
  proof (cases "timers w")
    case Nil
    with Timer assms show ?thesis by simp
  next
    case (Cons t ts)
    show ?thesis
    proof (cases t)
      case (ResolvePromises rs)
      with Timer Cons assms show ?thesis by simp
    next
      case StartResultCollectorIfNeeded
      define w1 where "w1 = w\<lparr>timers := ts\<rparr>"
      have s: "step P e w = startResultCollectorIfNeeded w1"
        using Timer Cons StartResultCollectorIfNeeded by (simp add: w1_def)
      have v: "collectors w1 = collectors w" "pending w1 = pending w"
        "resultCollectorPromise (state_of w1) = resultCollectorPromise (state_of w)"
        by (simp_all add: w1_def)
      show ?thesis
      proof (cases "pending w1 \<noteq> [] \<and> \<not> resultCollectorPromise (state_of w1)")
        case True
        with startResultCollectorIfNeeded_started[of w1] v assms show ?thesis
          by (auto simp: s)
      next
        case False
        then have "startResultCollectorIfNeeded w1 = w1"
          by (intro startResultCollectorIfNeeded_idle) auto
        with v assms show ?thesis by (simp add: s)
      qed
    qed
  qed
qed

lemma step_quiet_invariant:
  assumes "collectors w \<le> 1"
    and "collectors w = 1 \<longrightarrow> resultCollectorPromise (state_of w) \<and> pending w \<noteq> []"
    and "pending w \<noteq> [] \<longrightarrow> collectors w = 1"
    and "resultCollectorPromise (state_of w) \<longrightarrow> collectors w = 1"
    and "quiet e"
  shows "(pending (step P e w) \<noteq> [] \<longrightarrow> collectors (step P e w) = 1)
     \<and> (resultCollectorPromise (state_of (step P e w)) \<longrightarrow> collectors (step P e w) = 1)"
proof (cases e)
  case (Enqueue c)
  define w' where "w' = fst (enqueueCallRequest c w)"
  have s: "step P e w = w'" using Enqueue by (simp add: w'_def)
  have v: "resultCollectorPromise (state_of w')"
    "collectors w' = (if resultCollectorPromise (state_of w) then collectors w else collectors w + 1)"
    using enqueueCallRequest_view[of c w] by (simp_all add: w'_def)
  have "collectors w' = 1"
  proof (cases "resultCollectorPromise (state_of w)")
    case True
    with v assms(4) show ?thesis by simp
  next
    case False
    with assms(1,2) have "collectors w = 0" by (cases "collectors w = 1") simp_all
    with v False show ?thesis by simp
  qed
  then show ?thesis unfolding s by simp
next
  case (Receive r)
  show ?thesis
  proof (cases "collectors w = 0")
    case True
    with Receive assms(3,4) show ?thesis by simp
  next
    case False
    with assms(1) have one: "collectors w = 1" by simp
    show ?thesis
    proof (cases r)
      case (Failure code)
      with Receive assms(5) show ?thesis by simp
    next
      case (Success received)
      define w' where "w' = resultCollector_resume (Success received) w"
      have s: "step P e w = w'" using Receive Success one by (simp add: w'_def)
      have q: "quiet (Receive (Success received))" using assms(5) Receive Success by simp
      have "(pending w' \<noteq> [] \<and> collectors w' = collectors w
              \<and> resultCollectorPromise (state_of w') = resultCollectorPromise (state_of w))
          \<or> (collectors w' = collectors w - 1 \<and> \<not> resultCollectorPromise (state_of w')
              \<and> pending w' = [])"
        using resultCollector_resume_success[of received w] q unfolding w'_def by blast
      then show ?thesis unfolding s using one by auto
    qed
  qed
next
  case Timer
  show ?thesis
  proof (cases "timers w")
    case Nil
    with Timer assms(3,4) show ?thesis by simp
  next
    case (Cons t ts)
    show ?thesis
    proof (cases t)
      case (ResolvePromises rs)
      with Timer Cons assms(3,4) show ?thesis by simp
    next
      case StartResultCollectorIfNeeded
      define w1 where "w1 = w\<lparr>timers := ts\<rparr>"
      have s: "step P e w = startResultCollectorIfNeeded w1"
        using Timer Cons StartResultCollectorIfNeeded by (simp add: w1_def)
      have v: "collectors w1 = collectors w" "pending w1 = pending w"
        "resultCollectorPromise (state_of w1) = resultCollectorPromise (state_of w)"
        by (simp_all add: w1_def)
      have "pending w1 = [] \<or> resultCollectorPromise (state_of w1)"
        unfolding v using assms(2,3) by blast
      then have "startResultCollectorIfNeeded w1 = w1"
        by (rule startResultCollectorIfNeeded_idle)
      with v assms(3,4) show ?thesis by (simp add: s)
    qed
  qed
qed

lemma run_invariant:
  assumes "collectors w \<le> 1"
    and "collectors w = 1 \<longrightarrow> resultCollectorPromise (state_of w) \<and> pending w \<noteq> []"
  shows "collectors (run P evs w) \<le> 1
     \<and> (collectors (run P evs w) = 1 \<longrightarrow>
          resultCollectorPromise (state_of (run P evs w)) \<and> pending (run P evs w) \<noteq> [])"
  using assms
proof (induction evs arbitrary: w)
  case Nil
  then show ?case by simp
next
  case (Cons e evs)
  have s: "collectors (step P e w) \<le> 1
     \<and> (collectors (step P e w) = 1 \<longrightarrow>
          resultCollectorPromise (state_of (step P e w)) \<and> pending (step P e w) \<noteq> [])"
    by (rule step_invariant[OF Cons.prems])
  show ?case using Cons.IH[OF conjunct1[OF s] conjunct2[OF s]] by simp
qed

lemma run_quiet_invariant:
  assumes "collectors w \<le> 1"
    and "collectors w = 1 \<longrightarrow> resultCollectorPromise (state_of w) \<and> pending w \<noteq> []"
    and "pending w \<noteq> [] \<longrightarrow> collectors w = 1"
    and "resultCollectorPromise (state_of w) \<longrightarrow> collectors w = 1"
    and "\<forall>e \<in> set evs. quiet e"
  shows "(pending (run P evs w) \<noteq> [] \<longrightarrow> collectors (run P evs w) = 1)
     \<and> (resultCollectorPromise (state_of (run P evs w)) \<longrightarrow> collectors (run P evs w) = 1)"
  using assms
proof (induction evs arbitrary: w)
  case Nil
  from Nil.prems(3,4) show ?case by simp
next
  case (Cons e evs)
  have q: "quiet e" and qs: "\<forall>e \<in> set evs. quiet e" using Cons.prems(5) by simp_all
  have s: "collectors (step P e w) \<le> 1
     \<and> (collectors (step P e w) = 1 \<longrightarrow>
          resultCollectorPromise (state_of (step P e w)) \<and> pending (step P e w) \<noteq> [])"
    by (rule step_invariant[OF Cons.prems(1,2)])
  have t: "(pending (step P e w) \<noteq> [] \<longrightarrow> collectors (step P e w) = 1)
     \<and> (resultCollectorPromise (state_of (step P e w)) \<longrightarrow> collectors (step P e w) = 1)"
    by (rule step_quiet_invariant[OF Cons.prems(1-4) q])
  show ?case
    using Cons.IH[OF conjunct1[OF s] conjunct2[OF s] conjunct1[OF t] conjunct2[OF t] qs]
    by simp
qed


text \<open>
  C3, amended. From a state with no pending call and no collector promise, after any
  turns: at most one \<open>resultCollector\<close> call is unfinished, and none when the map of
  pending calls is empty. As long as no turn delivered a stop message or a failed
  \<open>receiveMessage\<close>, none is unfinished exactly when the map is empty. A caller that
  finds no collector promise starts a collector, and a collector that leaves the map
  empty after a batch without stop message clears the promise, returns, and has queued
  the restart check.
\<close>

theorem collector_at_most_one:
  assumes "callResultPromises st = []" and "\<not> resultCollectorPromise st"
  shows "collectors (run P evs (initial_world st)) \<le> 1
     \<and> (pending (run P evs (initial_world st)) = [] \<longrightarrow>
          collectors (run P evs (initial_world st)) = 0)
     \<and> ((\<forall>e \<in> set evs. quiet e) \<longrightarrow>
          (collectors (run P evs (initial_world st)) = 0
             \<longleftrightarrow> pending (run P evs (initial_world st)) = []))
     \<and> (\<not> resultCollectorPromise (state_of (run P evs (initial_world st))) \<longrightarrow>
          collectors (step P (Enqueue c) (run P evs (initial_world st))) = 1
          \<and> resultCollectorPromise (state_of (step P (Enqueue c) (run P evs (initial_world st)))))
     \<and> (collectors (run P evs (initial_world st)) = 1 \<and> quiet (Receive r)
          \<and> pending (step P (Receive r) (run P evs (initial_world st))) = [] \<longrightarrow>
          \<not> resultCollectorPromise (state_of (step P (Receive r) (run P evs (initial_world st))))
          \<and> collectors (step P (Receive r) (run P evs (initial_world st))) = 0
          \<and> timers (step P (Receive r) (run P evs (initial_world st))) \<noteq> []
          \<and> last (timers (step P (Receive r) (run P evs (initial_world st))))
              = StartResultCollectorIfNeeded)"
proof -
  define w0 :: "'a world" where "w0 = initial_world st"
  define w where "w = run P evs w0"
  have i0: "collectors w0 \<le> 1"
    "collectors w0 = 1 \<longrightarrow> resultCollectorPromise (state_of w0) \<and> pending w0 \<noteq> []"
    "pending w0 \<noteq> [] \<longrightarrow> collectors w0 = 1"
    "resultCollectorPromise (state_of w0) \<longrightarrow> collectors w0 = 1"
    using assms by (simp_all add: w0_def initial_world_def pending_def)
  have inv: "collectors w \<le> 1"
    "collectors w = 1 \<longrightarrow> resultCollectorPromise (state_of w) \<and> pending w \<noteq> []"
    using run_invariant[OF i0(1,2), of P evs] by (simp_all add: w_def)
  have quiet_inv: "(\<forall>e \<in> set evs. quiet e) \<Longrightarrow> pending w \<noteq> [] \<longrightarrow> collectors w = 1"
    using run_quiet_invariant[OF i0, of evs P] by (simp add: w_def)
  have zero: "collectors w \<noteq> 1 \<Longrightarrow> collectors w = 0"
    using inv(1) by simp
  have a: "pending w = [] \<longrightarrow> collectors w = 0"
    using inv(2) zero by blast
  have b: "(\<forall>e \<in> set evs. quiet e) \<longrightarrow> (collectors w = 0 \<longleftrightarrow> pending w = [])"
    using a quiet_inv by auto
  have c: "\<not> resultCollectorPromise (state_of w) \<longrightarrow>
      collectors (step P (Enqueue c) w) = 1
      \<and> resultCollectorPromise (state_of (step P (Enqueue c) w))"
  proof
    assume h: "\<not> resultCollectorPromise (state_of w)"
    with inv(2) zero have "collectors w = 0" by blast
    with h enqueueCallRequest_view[of c w]
    show "collectors (step P (Enqueue c) w) = 1
      \<and> resultCollectorPromise (state_of (step P (Enqueue c) w))" by simp
  qed
  have d: "collectors w = 1 \<and> quiet (Receive r) \<and> pending (step P (Receive r) w) = [] \<longrightarrow>
      \<not> resultCollectorPromise (state_of (step P (Receive r) w))
      \<and> collectors (step P (Receive r) w) = 0
      \<and> timers (step P (Receive r) w) \<noteq> []
      \<and> last (timers (step P (Receive r) w)) = StartResultCollectorIfNeeded"
  proof
    assume h: "collectors w = 1 \<and> quiet (Receive r) \<and> pending (step P (Receive r) w) = []"
    then obtain received where r: "r = Success received" by (cases r) simp_all
    define w' where "w' = resultCollector_resume (Success received) w"
    have s: "step P (Receive r) w = w'" using h r by (simp add: w'_def)
    have q: "quiet (Receive (Success received))" using h r by simp
    have e: "pending w' = []" using h unfolding s by blast
    have "collectors w' = collectors w - 1 \<and> \<not> resultCollectorPromise (state_of w')
        \<and> timers w' \<noteq> [] \<and> last (timers w') = StartResultCollectorIfNeeded"
      using resultCollector_resume_success[of received w] q e unfolding w'_def by blast
    with h show "\<not> resultCollectorPromise (state_of (step P (Receive r) w))
      \<and> collectors (step P (Receive r) w) = 0
      \<and> timers (step P (Receive r) w) \<noteq> []
      \<and> last (timers (step P (Receive r) w)) = StartResultCollectorIfNeeded"
      unfolding s by simp
  qed
  from inv(1) a b c d show ?thesis unfolding w_def w0_def by blast
qed

theorem collector_at_most_one_witness:
  "callResultPromises idle_state = [] \<and> \<not> resultCollectorPromise idle_state
   \<and> list_all quiet [Enqueue ''call-1'']
   \<and> collectors (run parse_five [Enqueue ''call-1''] (initial_world idle_state)) = 1
   \<and> quiet (Receive (Success (Some [reply ''call-1'' ''{}''])))
   \<and> pending (step parse_five (Receive (Success (Some [reply ''call-1'' ''{}''])))
        (run parse_five [Enqueue ''call-1''] (initial_world idle_state))) = []
   \<and> collectors (step parse_five (Receive (Success (Some [reply ''call-1'' ''{}''])))
        (run parse_five [Enqueue ''call-1''] (initial_world idle_state))) = 0
   \<and> last (timers (step parse_five (Receive (Success (Some [reply ''call-1'' ''{}''])))
        (run parse_five [Enqueue ''call-1''] (initial_world idle_state))))
       = StartResultCollectorIfNeeded
   \<and> \<not> resultCollectorPromise (state_of (run parse_five [] (initial_world idle_state)))
   \<and> collectors (step parse_five (Enqueue ''call-1'')
        (run parse_five [] (initial_world idle_state))) = 1"
proof -
  have h1: "callResultPromises idle_state = []" by code_simp
  have h2: "\<not> resultCollectorPromise idle_state" by code_simp
  have h3: "\<forall>e \<in> set [Enqueue ''call-1'']. quiet e" by simp
  have h4: "collectors (run parse_five [Enqueue ''call-1''] (initial_world idle_state)) = 1"
    by code_simp
  have h5: "quiet (Receive (Success (Some [reply ''call-1'' ''{}''])))" by code_simp
  have h6: "pending (step parse_five (Receive (Success (Some [reply ''call-1'' ''{}''])))
        (run parse_five [Enqueue ''call-1''] (initial_world idle_state))) = []"
    by code_simp
  have h7: "\<not> resultCollectorPromise (state_of (run parse_five [] (initial_world idle_state)))"
    by code_simp
  have h8: "list_all quiet [Enqueue ''call-1'']" by simp
  from collector_at_most_one[OF h1 h2, of parse_five "[Enqueue ''call-1'']" "''call-2''"
      "Success (Some [reply ''call-1'' ''{}''])"]
    collector_at_most_one[OF h1 h2, of parse_five "[]" "''call-1''" "Success None"]
    h1 h2 h3 h4 h5 h6 h7 h8
  show ?thesis by blast
qed

section \<open>Correlation of replies\<close>

lemma for_messages_replies:
  "\<forall>m \<in> set ms. is_reply P m \<Longrightarrow>
   for_messages ms acc pm = (Finished (acc @ results_of ms pm), remaining ms pm)"
proof (induction ms arbitrary: acc pm)
  case Nil
  then show ?case by simp
next
  case (Cons m ms)
  from Cons.prems have r: "is_reply P m" and rs: "\<forall>m \<in> set ms. is_reply P m" by simp_all
  from r obtain attrs k where a: "MessageAttributes m = Some attrs"
      "map_of attrs ''CallId'' = Some (Some k)" "reply_CallId m = Some k"
    by (auto simp: is_reply_def reply_CallId_def truthy_def split: option.splits)
  from r have s: "\<not> isQueueStopMessage m" by (simp add: is_reply_def)
  show ?case using Cons.IH[OF rs] a s by simp
qed

lemma remaining_filter:
  "\<forall>m \<in> set ms. reply_CallId m \<noteq> None \<Longrightarrow>
   remaining ms pm = filter (\<lambda>p. Some (fst p) \<notin> reply_CallId ` set ms) pm"
proof (induction ms arbitrary: pm)
  case Nil
  then show ?case by simp
next
  case (Cons m ms)
  then obtain k where k: "reply_CallId m = Some k" by auto
  from Cons.prems have rs: "\<forall>m \<in> set ms. reply_CallId m \<noteq> None" by simp
  show ?case using Cons.IH[OF rs] k
    by (auto simp: Map_delete_def intro!: filter_cong)
qed

lemma resolvePromises_trace_mono:
  "set (trace w) \<subseteq> set (trace (resolvePromises P rs w))"
proof (induction rs arbitrary: w)
  case Nil
  then show ?case by simp
next
  case (Cons r rs)
  show ?case
    using Cons.IH
    by (simp add: Let_def split: sum.splits option.splits) (fastforce)
qed


lemma resolvePromises_reply_head:
  assumes "is_reply P m" and "reply_CallId m = Some k" and "P (the (Body m)) = Inr ret"
  shows "resolvePromises P (\<lparr> CallId = Some k, message = m, deferred = dopt \<rparr> # rs) w =
      resolvePromises P rs
        (case dopt of
           None \<Rightarrow> emit [Log (''Deferred promise not found for CallID: '' @ k)] w
         | Some d \<Rightarrow> settle d (Resolved (QueuedResponse ret m)) w)"
proof -
  from assms(1,2) have t: "truthy (Some k)" "truthy (Body m)" by (simp_all add: is_reply_def)
  show ?thesis using t assms(3) by (simp add: shown_def split: option.splits)
qed

lemma distinct_snd_unique:
  "distinct (map snd pm) \<Longrightarrow> p \<in> set pm \<Longrightarrow> q \<in> set pm \<Longrightarrow> snd p = snd q \<Longrightarrow> p = q"
  by (meson distinct_map inj_onD)

lemma resolve_results:
  assumes "\<forall>m \<in> set ms. is_reply P m"
    and "distinct (map fst pm)" and "distinct (map snd pm)"
    and "\<forall>p \<in> set pm. promises w (snd p) = None"
  shows "(\<forall>d. d \<notin> snd ` set pm \<longrightarrow>
            promises (resolvePromises P (results_of ms pm) w) d = promises w d)
     \<and> (\<forall>p \<in> set pm. promises (resolvePromises P (results_of ms pm) w) (snd p) =
          (case find (\<lambda>m. reply_CallId m = Some (fst p)) ms of
             None \<Rightarrow> None
           | Some m \<Rightarrow> Some (Resolved (QueuedResponse (projr (P (the (Body m)))) m))))"
  using assms
proof (induction ms arbitrary: pm w)
  case Nil
  then show ?case by simp
next
  case (Cons m ms)
  from Cons.prems(1) have r: "is_reply P m" and rs: "\<forall>m \<in> set ms. is_reply P m" by simp_all
  from r obtain k where k: "reply_CallId m = Some k"
    by (auto simp: is_reply_def truthy_def split: option.splits)
  from r obtain ret where ret: "P (the (Body m)) = Inr ret"
    by (cases "P (the (Body m))") (simp_all add: is_reply_def)
  define pm1 where "pm1 = Map_delete pm (Some k)"
  define dopt where "dopt = Map_get pm (Some k)"
  define w1 where "w1 = (case dopt of
      None \<Rightarrow> emit [Log (''Deferred promise not found for CallID: '' @ k)] w
    | Some d \<Rightarrow> settle d (Resolved (QueuedResponse ret m)) w)"
  define w' where "w' = resolvePromises P (results_of ms pm1) w1"
  have pm1: "pm1 = filter (\<lambda>p. fst p \<noteq> k) pm" by (simp add: pm1_def Map_delete_def)
  have sub: "set pm1 \<subseteq> set pm" by (auto simp: pm1)
  have unfold: "resolvePromises P (results_of (m # ms) pm) w = w'"
    using resolvePromises_reply_head[OF r k ret, of dopt "results_of ms pm1" w]
    by (simp add: k pm1_def dopt_def w1_def w'_def)
  have d1: "distinct (map fst pm1)" and d2: "distinct (map snd pm1)"
    using Cons.prems(2,3) by (simp_all add: pm1 distinct_map_filter)
  have w1_other: "\<And>d. dopt \<noteq> Some d \<Longrightarrow> promises w1 d = promises w d"
    by (cases dopt) (auto simp: w1_def)
  have dopt_in: "\<And>d. dopt = Some d \<Longrightarrow> (k, d) \<in> set pm"
    by (simp add: dopt_def Map_get_def map_of_SomeD)
  have none1: "\<forall>p \<in> set pm1. promises w1 (snd p) = None"
  proof
    fix p assume p: "p \<in> set pm1"
    then have pin: "p \<in> set pm" and pk: "fst p \<noteq> k" by (auto simp: pm1)
    have "dopt \<noteq> Some (snd p)"
    proof
      assume "dopt = Some (snd p)"
      then have "(k, snd p) \<in> set pm" by (rule dopt_in)
      from distinct_snd_unique[OF Cons.prems(3) this pin] pk show False by (metis fst_conv snd_conv)
    qed
    then have "promises w1 (snd p) = promises w (snd p)" by (rule w1_other)
    with Cons.prems(4) pin show "promises w1 (snd p) = None" by simp
  qed
  note IH = Cons.IH[OF rs d1 d2 none1, folded w'_def]
  have part1: "\<forall>d. d \<notin> snd ` set pm \<longrightarrow> promises w' d = promises w d"
  proof (intro allI impI)
    fix d assume d: "d \<notin> snd ` set pm"
    with sub have "d \<notin> snd ` set pm1" by auto
    with IH have "promises w' d = promises w1 d" by blast
    moreover have "dopt \<noteq> Some d" using dopt_in d by force
    ultimately show "promises w' d = promises w d" using w1_other by simp
  qed
  have part2: "\<forall>p \<in> set pm. promises w' (snd p) =
      (case find (\<lambda>m. reply_CallId m = Some (fst p)) (m # ms) of
         None \<Rightarrow> None
       | Some m \<Rightarrow> Some (Resolved (QueuedResponse (projr (P (the (Body m)))) m)))"
  proof
    fix p assume pin: "p \<in> set pm"
    show "promises w' (snd p) =
      (case find (\<lambda>m. reply_CallId m = Some (fst p)) (m # ms) of
         None \<Rightarrow> None
       | Some m \<Rightarrow> Some (Resolved (QueuedResponse (projr (P (the (Body m)))) m)))"
    proof (cases "fst p = k")
      case True
      have "map_of pm k = Some (snd p)"
        using Cons.prems(2) pin True by (cases p) auto
      then have dopt: "dopt = Some (snd p)" by (simp add: dopt_def Map_get_def)
      have "snd p \<notin> snd ` set pm1"
      proof
        assume "snd p \<in> snd ` set pm1"
        then obtain q where q: "q \<in> set pm1" "snd q = snd p" by auto
        then have qin: "q \<in> set pm" and qk: "fst q \<noteq> k" by (auto simp: pm1)
        from distinct_snd_unique[OF Cons.prems(3) qin pin q(2)] have "q = p" .
        with qk True show False by simp
      qed
      with IH have "promises w' (snd p) = promises w1 (snd p)" by blast
      also have "\<dots> = Some (Resolved (QueuedResponse ret m))"
        using dopt Cons.prems(4) pin by (simp add: w1_def)
      finally show ?thesis using True k ret by simp
    next
      case False
      with pin have "p \<in> set pm1" by (simp add: pm1)
      with IH have "promises w' (snd p) =
        (case find (\<lambda>m. reply_CallId m = Some (fst p)) ms of
           None \<Rightarrow> None
         | Some m \<Rightarrow> Some (Resolved (QueuedResponse (projr (P (the (Body m)))) m)))"
        by blast
      with False k show ?thesis by auto
    qed
  qed
  from part1 part2 show ?case unfolding unfold by blast
qed

lemma resolve_results_log:
  assumes "\<forall>m \<in> set ms. is_reply P m"
    and "m \<in> set ms" and "reply_CallId m = Some k" and "k \<notin> fst ` set pm"
  shows "Log (''Deferred promise not found for CallID: '' @ k)
           \<in> set (trace (resolvePromises P (results_of ms pm) w))"
  using assms
proof (induction ms arbitrary: pm w)
  case Nil
  then show ?case by simp
next
  case (Cons x xs)
  from Cons.prems(1) have r: "is_reply P x" and rs: "\<forall>m \<in> set xs. is_reply P m" by simp_all
  from r obtain kx where kx: "reply_CallId x = Some kx"
    by (auto simp: is_reply_def truthy_def split: option.splits)
  from r obtain ret where ret: "P (the (Body x)) = Inr ret"
    by (cases "P (the (Body x))") (simp_all add: is_reply_def)
  define pm1 where "pm1 = Map_delete pm (Some kx)"
  define dopt where "dopt = Map_get pm (Some kx)"
  define w1 where "w1 = (case dopt of
      None \<Rightarrow> emit [Log (''Deferred promise not found for CallID: '' @ kx)] w
    | Some d \<Rightarrow> settle d (Resolved (QueuedResponse ret x)) w)"
  have unfold: "resolvePromises P (results_of (x # xs) pm) w
      = resolvePromises P (results_of xs pm1) w1"
    using resolvePromises_reply_head[OF r kx ret, of dopt "results_of xs pm1" w]
    by (simp add: kx pm1_def dopt_def w1_def)
  have k1: "k \<notin> fst ` set pm1" using Cons.prems(4) by (auto simp: pm1_def Map_delete_def)
  show ?case
  proof (cases "m = x")
    case True
    with Cons.prems(3) kx have e: "kx = k" by simp
    have "map_of pm k = None" using Cons.prems(4) by (simp add: map_of_eq_None_iff)
    then have "dopt = None" by (simp add: dopt_def Map_get_def e)
    then have "Log (''Deferred promise not found for CallID: '' @ k) \<in> set (trace w1)"
      by (simp add: w1_def e)
    with resolvePromises_trace_mono[of w1 P "results_of xs pm1"] show ?thesis
      unfolding unfold by blast
  next
    case False
    with Cons.prems(2) have "m \<in> set xs" by simp
    from Cons.IH[OF rs this Cons.prems(3) k1] show ?thesis unfolding unfold .
  qed
qed


lemma resolvePromises_resolved:
  "promises (resolvePromises P rs w) d = Some (Resolved (QueuedResponse ret m)) \<Longrightarrow>
   promises w d \<noteq> Some (Resolved (QueuedResponse ret m)) \<Longrightarrow>
   \<exists>r \<in> set rs. deferred r = Some d \<and> message r = m \<and> P (the (Body m)) = Inr ret"
proof (induction rs arbitrary: w)
  case Nil
  then show ?case by simp
next
  case (Cons r rs)
  define w1 where "w1 = (if \<not> truthy (CallId r)
      then emit [Log (''No CallId for MessageId: '' @ shown (MessageId (message r))
                   @ '', attributes: ''
                   @ (case MessageAttributes (message r) of
                        None \<Rightarrow> ''undefined'' | Some _ \<Rightarrow> ''[object Object]'')
                   @ '', Body: '' @ shown (Body (message r)))] w
      else w)"
  have p1: "promises w1 = promises w" by (simp add: w1_def)
  show ?case
  proof (cases "truthy (Body (message r))")
    case False
    then have "resolvePromises P (r # rs) w = resolvePromises P rs w1"
      by (simp add: w1_def Let_def)
    with Cons.IH[of w1] Cons.prems p1 show ?thesis by auto
  next
    case True
    show ?thesis
    proof (cases "P (the (Body (message r)))")
      case (Inl err)
      with True have "resolvePromises P (r # rs) w = emit [Uncaught err] w1"
        by (simp add: w1_def Let_def)
      with Cons.prems p1 show ?thesis by simp
    next
      case (Inr returned)
      show ?thesis
      proof (cases "deferred r")
        case None
        define w2 where "w2 = emit [Log (''Deferred promise not found for CallID: ''
            @ shown (CallId r))] w1"
        have "resolvePromises P (r # rs) w = resolvePromises P rs w2"
          using True Inr None by (simp add: w1_def w2_def Let_def)
        moreover have "promises w2 = promises w" by (simp add: w2_def p1)
        ultimately show ?thesis using Cons.IH[of w2] Cons.prems by auto
      next
        case (Some d')
        define w2 where "w2 = settle d' (Resolved (QueuedResponse returned (message r))) w1"
        have u: "resolvePromises P (r # rs) w = resolvePromises P rs w2"
          using True Inr Some by (simp add: w1_def w2_def Let_def)
        show ?thesis
        proof (cases "promises w2 d = Some (Resolved (QueuedResponse ret m))")
          case False
          with Cons.IH[of w2] Cons.prems(1) u show ?thesis by auto
        next
          case eq: True
          with Cons.prems(2) p1 have "d' = d \<and> returned = ret \<and> message r = m"
            by (auto simp: w2_def split: if_splits)
          with Some Inr show ?thesis by auto
        qed
      qed
    qed
  qed
qed

lemma Map_delete_subset: "x \<in> set (Map_delete pm c) \<Longrightarrow> x \<in> set pm"
  by (auto simp: Map_delete_def split: option.splits)

lemma for_messages_results:
  "for_messages ms acc pm = (Finished rs, pm') \<Longrightarrow> r \<in> set rs \<Longrightarrow>
   r \<in> set acc \<or>
   (message r \<in> set ms \<and> CallId r = reply_CallId (message r)
    \<and> (\<forall>d. deferred r = Some d \<longrightarrow> (\<exists>k. CallId r = Some k \<and> (k, d) \<in> set pm)))"
proof (induction ms arbitrary: acc pm)
  case Nil
  then show ?case by simp
next
  case (Cons m ms)
  from Cons.prems(1) obtain attrs callId where
    a: "MessageAttributes m = Some attrs" "map_of attrs ''CallId'' = Some callId"
    and f: "for_messages ms (acc @ [\<lparr> CallId = callId, message = m,
              deferred = Map_get pm callId \<rparr>]) (Map_delete pm callId) = (Finished rs, pm')"
    by (auto split: if_splits option.splits)
  have c: "reply_CallId m = callId" using a by (simp add: reply_CallId_def)
  have sub: "set (Map_delete pm callId) \<subseteq> set pm"
    by (auto simp: Map_delete_def split: option.splits)
  from Cons.IH[OF f Cons.prems(2)]
  consider "r \<in> set acc" | "r = \<lparr> CallId = callId, message = m, deferred = Map_get pm callId \<rparr>"
    | "message r \<in> set ms \<and> CallId r = reply_CallId (message r)
       \<and> (\<forall>d. deferred r = Some d \<longrightarrow>
            (\<exists>k. CallId r = Some k \<and> (k, d) \<in> set (Map_delete pm callId)))"
    by auto
  then show ?case
  proof cases
    case 1
    then show ?thesis by simp
  next
    case 2
    then show ?thesis using c
      by (auto simp: Map_get_def split: option.splits dest: map_of_SomeD)
  next
    case 3
    then have "\<forall>d. deferred r = Some d \<longrightarrow> (\<exists>k. CallId r = Some k \<and> (k, d) \<in> set pm)"
      by (meson Map_delete_subset)
    with 3 show ?thesis by simp
  qed
qed

lemma reject_entries_resolved:
  "promises (reject_entries es w) d = Some (Resolved q) \<Longrightarrow> promises w d = Some (Resolved q)"
proof (induction es arbitrary: w)
  case Nil
  then show ?case by simp
next
  case (Cons e es)
  obtain key d' where e: "e = (key, d')" by (cases e)
  from Cons.prems have "promises (reject_entries es (settle d'
      (Rejected (Error ''Call to cloud function cancelled in cleanup''))
      (emit [Log (''Rejecting call result: '' @ key)] w))) d = Some (Resolved q)"
    unfolding e by simp
  then have "promises (settle d'
      (Rejected (Error ''Call to cloud function cancelled in cleanup''))
      (emit [Log (''Rejecting call result: '' @ key)] w)) d = Some (Resolved q)"
    by (rule Cons.IH)
  then show ?case by (simp split: if_splits)
qed

lemma startResultCollectorIfNeeded_promises [simp]:
  "promises (startResultCollectorIfNeeded w) = promises w"
  by (simp add: startResultCollectorIfNeeded_def resultCollector_call_def
      resultCollector_while_def)

lemma resultCollector_while_promises [simp]:
  "promises (resultCollector_while w) = promises w"
  by (simp add: resultCollector_while_def)

lemma resultCollector_while_pending [simp]:
  "pending (resultCollector_while w) = pending w"
  by (simp add: resultCollector_while_def)

lemma resultCollector_while_timers:
  "timers (resultCollector_while w) =
     (if pending w = [] then timers w @ [StartResultCollectorIfNeeded] else timers w)"
  by (simp add: resultCollector_while_def)

lemma run_receive:
  assumes "collectors w > 0" and "timers w = []"
  shows "case for_messages ms [] (pending w) of
           (Finished rs, pm') \<Rightarrow>
             (\<exists>wA. run P [Receive (Success (Some ms)), Timer] w = resolvePromises P rs wA
                  \<and> promises wA = promises w \<and> pending wA = pm')
         | (Stop, m) \<Rightarrow>
             (\<exists>wB. promises (run P [Receive (Success (Some ms)), Timer] w)
                     = promises (reject_entries m wB) \<and> promises wB = promises w)
         | (Throw err, m) \<Rightarrow>
             promises (run P [Receive (Success (Some ms)), Timer] w) = promises w"
proof -
  define w1 where "w1 = emit (Log (''received '' @ decimal (length ms) @ '' messages.'')
      # deleteSQSMessages (ResponseQueueUrl (resources (state_of w))) ms) w"
  have s: "run P [Receive (Success (Some ms)), Timer] w
      = step P Timer (resultCollector_body ms w)"
    using assms(1) by (simp add: resultCollector_resume_def promise_def)
  obtain ex m where f: "for_messages ms [] (pending w) = (ex, m)"
    by (cases "for_messages ms [] (pending w)")
  show ?thesis
  proof (cases ex)
    case Stop
    define wB where "wB = emit [Log (''Rejecting '' @ decimal (length m) @ '' result promises'')]
        (set_pending m w1)"
    have b: "resultCollector_body ms w =
        (set_resultCollectorPromise False (reject_entries m wB))\<lparr>collectors := collectors w - 1\<rparr>"
      using f Stop by (simp add: resultCollector_body_def Let_def w1_def wB_def rejectAll_def)
    have "timers (resultCollector_body ms w) = []"
      unfolding b using assms(2) by (simp add: wB_def w1_def)
    then have "run P [Receive (Success (Some ms)), Timer] w = resultCollector_body ms w"
      unfolding s by simp
    moreover have "promises wB = promises w" by (simp add: wB_def w1_def)
    ultimately show ?thesis using f Stop b by auto
  next
    case (Throw err)
    define w2 where "w2 = emit [LogError err] (set_pending m w1)"
    have b: "resultCollector_body ms w = resultCollector_while w2"
      using f Throw by (simp add: resultCollector_body_def Let_def w1_def w2_def)
    have t: "timers w2 = []" "promises w2 = promises w"
      using assms(2) by (simp_all add: w2_def w1_def)
    have "promises (step P Timer (resultCollector_while w2)) = promises w"
      using t by (simp add: resultCollector_while_timers)
    then show ?thesis using f Throw unfolding s b by simp
  next
    case (Finished rs)
    define w2 where "w2 = (emit [SetTimeout] (set_pending m w1))\<lparr>timers := timers w @ [ResolvePromises rs]\<rparr>"
    have b: "resultCollector_body ms w = resultCollector_while w2"
      using f Finished by (simp add: resultCollector_body_def Let_def w1_def w2_def)
    have t: "timers w2 = [ResolvePromises rs]" "promises w2 = promises w" "pending w2 = m"
      using assms(2) by (simp_all add: w2_def w1_def)
    define ts where "ts = (if pending w2 = [] then [StartResultCollectorIfNeeded] else [])"
    define wA where "wA = (resultCollector_while w2)\<lparr>timers := ts\<rparr>"
    have "timers (resultCollector_while w2) = ResolvePromises rs # ts"
      using t by (simp add: resultCollector_while_timers ts_def)
    then have "step P Timer (resultCollector_while w2) = resolvePromises P rs wA"
      by (simp add: wA_def)
    moreover have "promises wA = promises w" "pending wA = m"
      using t by (simp_all add: wA_def)
    ultimately show ?thesis using f Finished unfolding s b by auto
  qed
qed


lemma run_receive_finished:
  assumes "collectors w > 0" and "timers w = []"
    and "for_messages ms [] (pending w) = (Finished rs, pm')"
  shows "\<exists>wA. run P [Receive (Success (Some ms)), Timer] w = resolvePromises P rs wA
            \<and> promises wA = promises w \<and> pending wA = pm'"
  using run_receive[OF assms(1,2), where ms = ms and P = P] unfolding assms(3)
  by (simp only: prod.case for_exit.case)

lemma run_receive_stop:
  assumes "collectors w > 0" and "timers w = []"
    and "for_messages ms [] (pending w) = (Stop, pm')"
  shows "\<exists>wB. promises (run P [Receive (Success (Some ms)), Timer] w)
              = promises (reject_entries pm' wB) \<and> promises wB = promises w"
  using run_receive[OF assms(1,2), where ms = ms and P = P] unfolding assms(3)
  by (simp only: prod.case for_exit.case)

lemma run_receive_throw:
  assumes "collectors w > 0" and "timers w = []"
    and "for_messages ms [] (pending w) = (Throw err, pm')"
  shows "promises (run P [Receive (Success (Some ms)), Timer] w) = promises w"
  using run_receive[OF assms(1,2), where ms = ms and P = P] unfolding assms(3)
  by (simp only: prod.case for_exit.case)

text \<open>
  C1. A collector waits for \<open>receiveMessage\<close>; it receives the batch \<open>ms\<close> and then the
  callback it queued runs. Whatever the batch: a promise that was pending and is now
  resolved holds the return parsed from the body of a message of the batch, with that
  message, and the slot was registered under that message's \<open>CallId\<close>. If the batch
  consists of replies and the pending calls have distinct CallIds and slots: the slot
  of each pending call is resolved with the return parsed from the first reply carrying
  its CallId, and leaves the map; a call without reply stays pending and registered; no
  other promise changes; and a reply whose CallId is not registered is logged and
  changes no promise.
\<close>

theorem correlation:
  assumes "collectors w > 0" and "timers w = []"
  shows "(\<forall>d ret m.
            promises w d = None
            \<and> promises (run P [Receive (Success (Some ms)), Timer] w) d
                = Some (Resolved (QueuedResponse ret m)) \<longrightarrow>
            m \<in> set ms \<and> (\<exists>k. reply_CallId m = Some k \<and> (k, d) \<in> set (pending w))
            \<and> P (the (Body m)) = Inr ret)
     \<and> ((\<forall>m \<in> set ms. is_reply P m) \<and> distinct (map fst (pending w))
          \<and> distinct (map snd (pending w)) \<and> (\<forall>p \<in> set (pending w). promises w (snd p) = None) \<longrightarrow>
         (\<forall>p \<in> set (pending w).
            (case find (\<lambda>m. reply_CallId m = Some (fst p)) ms of
               Some m \<Rightarrow>
                 promises (run P [Receive (Success (Some ms)), Timer] w) (snd p)
                   = Some (Resolved (QueuedResponse (projr (P (the (Body m)))) m))
                 \<and> p \<notin> set (pending (run P [Receive (Success (Some ms)), Timer] w))
             | None \<Rightarrow>
                 promises (run P [Receive (Success (Some ms)), Timer] w) (snd p) = None
                 \<and> p \<in> set (pending (run P [Receive (Success (Some ms)), Timer] w))))
         \<and> (\<forall>d. d \<notin> snd ` set (pending w) \<longrightarrow>
               promises (run P [Receive (Success (Some ms)), Timer] w) d = promises w d)
         \<and> (\<forall>m \<in> set ms. \<forall>k. reply_CallId m = Some k \<and> k \<notin> fst ` set (pending w) \<longrightarrow>
               Log (''Deferred promise not found for CallID: '' @ k)
                 \<in> set (trace (run P [Receive (Success (Some ms)), Timer] w))))"
proof (intro conjI allI impI)
  fix d ret m
  define w' where "w' = run P [Receive (Success (Some ms)), Timer] w"
  assume "promises w d = None
      \<and> promises (run P [Receive (Success (Some ms)), Timer] w) d
          = Some (Resolved (QueuedResponse ret m))"
  then have n: "promises w d = None"
    and s: "promises w' d = Some (Resolved (QueuedResponse ret m))"
    unfolding w'_def by blast+
  obtain ex pm' where f: "for_messages ms [] (pending w) = (ex, pm')"
    by (cases "for_messages ms [] (pending w)")
  have "m \<in> set ms \<and> (\<exists>k. reply_CallId m = Some k \<and> (k, d) \<in> set (pending w))
      \<and> P (the (Body m)) = Inr ret"
  proof (cases ex)
    case Stop
    from run_receive_stop[OF assms f[unfolded Stop], of P] obtain wB where
      b: "promises w' = promises (reject_entries pm' wB)" "promises wB = promises w"
      unfolding w'_def by blast
    from s b(1) have "promises (reject_entries pm' wB) d = Some (Resolved (QueuedResponse ret m))"
      by simp
    then have "promises wB d = Some (Resolved (QueuedResponse ret m))"
      by (rule reject_entries_resolved)
    with b(2) n show ?thesis by simp
  next
    case (Throw err)
    from run_receive_throw[OF assms f[unfolded Throw], of P] have "promises w' = promises w"
      unfolding w'_def .
    with s n show ?thesis by simp
  next
    case (Finished rs)
    from run_receive_finished[OF assms f[unfolded Finished], of P] obtain wA where
      a: "w' = resolvePromises P rs wA" "promises wA = promises w"
      unfolding w'_def by blast
    from s a(1) have "promises (resolvePromises P rs wA) d
        = Some (Resolved (QueuedResponse ret m))" by simp
    moreover have "promises wA d \<noteq> Some (Resolved (QueuedResponse ret m))"
      using a(2) n by simp
    ultimately obtain r where r: "r \<in> set rs" "deferred r = Some d" "message r = m"
        "P (the (Body m)) = Inr ret"
      using resolvePromises_resolved[of P rs wA d ret m] by blast
    have fr: "message r \<in> set ms \<and> CallId r = reply_CallId (message r)
        \<and> (\<forall>d. deferred r = Some d \<longrightarrow>
             (\<exists>k. CallId r = Some k \<and> (k, d) \<in> set (pending w)))"
    proof -
      have "r \<notin> set []" by simp
      with for_messages_results[OF f[unfolded Finished] r(1)] show ?thesis by blast
    qed
    then obtain k where k: "CallId r = Some k" "(k, d) \<in> set (pending w)"
      using r(2) by blast
    from fr k(1) have "reply_CallId (message r) = Some k" by simp
    with fr k(2) r(3)
    have "m \<in> set ms \<and> (\<exists>k. reply_CallId m = Some k \<and> (k, d) \<in> set (pending w))"
      by blast
    with r(4) show ?thesis by simp
  qed
  then show "m \<in> set ms" and "\<exists>k. reply_CallId m = Some k \<and> (k, d) \<in> set (pending w)"
    and "P (the (Body m)) = Inr ret"
    by blast+
next
  assume h: "(\<forall>m \<in> set ms. is_reply P m) \<and> distinct (map fst (pending w))
      \<and> distinct (map snd (pending w)) \<and> (\<forall>p \<in> set (pending w). promises w (snd p) = None)"
  define w' where "w' = run P [Receive (Success (Some ms)), Timer] w"
  from h have replies: "\<forall>m \<in> set ms. is_reply P m" by simp
  have f: "for_messages ms [] (pending w)
      = (Finished (results_of ms (pending w)), remaining ms (pending w))"
    using for_messages_replies[OF replies, of "[]" "pending w"] by simp
  from run_receive_finished[OF assms f, of P] obtain wA where
    a: "w' = resolvePromises P (results_of ms (pending w)) wA" "promises wA = promises w"
       "pending wA = remaining ms (pending w)"
    unfolding w'_def by blast
  have ids: "\<forall>m \<in> set ms. reply_CallId m \<noteq> None"
    using replies by (auto simp: is_reply_def truthy_def split: option.splits)
  have "pending w' = pending wA" unfolding a(1) by simp
  then have pend: "pending w' = filter (\<lambda>p. Some (fst p) \<notin> reply_CallId ` set ms) (pending w)"
    unfolding a(3) remaining_filter[OF ids] .
  have none: "\<forall>p \<in> set (pending w). promises wA (snd p) = None"
    using h a(2) by simp
  from h have d1: "distinct (map fst (pending w))" and d2: "distinct (map snd (pending w))"
    by simp_all
  note R = resolve_results[OF replies d1 d2 none, folded a(1)]
  show "\<forall>p \<in> set (pending w).
      (case find (\<lambda>m. reply_CallId m = Some (fst p)) ms of
         Some m \<Rightarrow>
           promises (run P [Receive (Success (Some ms)), Timer] w) (snd p)
             = Some (Resolved (QueuedResponse (projr (P (the (Body m)))) m))
           \<and> p \<notin> set (pending (run P [Receive (Success (Some ms)), Timer] w))
       | None \<Rightarrow>
           promises (run P [Receive (Success (Some ms)), Timer] w) (snd p) = None
           \<and> p \<in> set (pending (run P [Receive (Success (Some ms)), Timer] w)))"
    unfolding w'_def[symmetric]
  proof
    fix p assume p: "p \<in> set (pending w)"
    from R p have v: "promises w' (snd p) =
        (case find (\<lambda>m. reply_CallId m = Some (fst p)) ms of
           None \<Rightarrow> None
         | Some m \<Rightarrow> Some (Resolved (QueuedResponse (projr (P (the (Body m)))) m)))"
      by blast
    show "case find (\<lambda>m. reply_CallId m = Some (fst p)) ms of
         Some m \<Rightarrow>
           promises w' (snd p) = Some (Resolved (QueuedResponse (projr (P (the (Body m)))) m))
           \<and> p \<notin> set (pending w')
       | None \<Rightarrow> promises w' (snd p) = None \<and> p \<in> set (pending w')"
    proof (cases "find (\<lambda>m. reply_CallId m = Some (fst p)) ms")
      case None
      then have "\<not> (\<exists>x. x \<in> set ms \<and> reply_CallId x = Some (fst p))"
        unfolding find_None_iff .
      then have "Some (fst p) \<notin> reply_CallId ` set ms" by (metis imageE)
      with p have pin: "p \<in> set (pending w')" unfolding pend by simp
      have vn: "promises w' (snd p) = None" using v unfolding None option.case .
      show ?thesis unfolding None option.case using vn pin by (rule conjI)
    next
      case (Some m)
      then have "find (\<lambda>m. reply_CallId m = Some (fst p)) ms \<noteq> None" by simp
      then have "\<exists>x. x \<in> set ms \<and> reply_CallId x = Some (fst p)"
        unfolding find_None_iff not_not .
      then have "Some (fst p) \<in> reply_CallId ` set ms" by (metis imageI)
      then have pout: "p \<notin> set (pending w')" unfolding pend by simp
      have vs: "promises w' (snd p)
          = Some (Resolved (QueuedResponse (projr (P (the (Body m)))) m))"
        using v unfolding Some option.case .
      show ?thesis unfolding Some option.case using vs pout by (rule conjI)
    qed
  qed
  show "promises (run P [Receive (Success (Some ms)), Timer] w) d = promises w d"
    if nd: "d \<notin> snd ` set (pending w)" for d
  proof -
    from R[THEN conjunct1] nd have "promises w' d = promises wA d" by blast
    then show ?thesis unfolding w'_def a(2) .
  qed
  show "\<forall>m \<in> set ms. \<forall>k. reply_CallId m = Some k \<and> k \<notin> fst ` set (pending w) \<longrightarrow>
      Log (''Deferred promise not found for CallID: '' @ k)
        \<in> set (trace (run P [Receive (Success (Some ms)), Timer] w))"
    unfolding w'_def[symmetric] a(1)
    using resolve_results_log[OF replies] by blast
qed


theorem correlation_witness:
  "collectors two_calls > 0 \<and> timers two_calls = []
   \<and> list_all (is_reply parse_five) two_replies
   \<and> distinct (map fst (pending two_calls)) \<and> distinct (map snd (pending two_calls))
   \<and> list_all (\<lambda>p. promises two_calls (snd p) = None) (pending two_calls)
   \<and> promises (run parse_five [Receive (Success (Some two_replies)), Timer] two_calls) 1
       = Some (Resolved (QueuedResponse (projr (parse_five ''{}'')) (reply ''call-2'' ''{}'')))
   \<and> promises (run parse_five [Receive (Success (Some two_replies)), Timer] two_calls) 0 = None
   \<and> Log (''Deferred promise not found for CallID: '' @ ''call-9'')
       \<in> set (trace (run parse_five [Receive (Success (Some two_replies)), Timer] two_calls))"
proof -
  have h1: "collectors two_calls > 0" by code_simp
  have h2: "timers two_calls = []" by code_simp
  have h3: "\<forall>m \<in> set two_replies. is_reply parse_five m" by code_simp
  have h4: "distinct (map fst (pending two_calls))" by code_simp
  have h5: "distinct (map snd (pending two_calls))" by code_simp
  have h6: "\<forall>p \<in> set (pending two_calls). promises two_calls (snd p) = None" by code_simp
  have p1: "(''call-1'', 0) \<in> set (pending two_calls)" by code_simp
  have p2: "(''call-2'', 1) \<in> set (pending two_calls)" by code_simp
  have f1: "find (\<lambda>m. reply_CallId m = Some (fst (''call-1'', 0::nat))) two_replies = None"
    by code_simp
  have f2: "find (\<lambda>m. reply_CallId m = Some (fst (''call-2'', 1::nat))) two_replies
      = Some (reply ''call-2'' ''{}'')" by code_simp
  have b2: "Body (reply ''call-2'' ''{}'') = Some ''{}''" by code_simp
  have m9: "reply ''call-9'' ''{}'' \<in> set two_replies" by code_simp
  have k9: "reply_CallId (reply ''call-9'' ''{}'') = Some ''call-9''" by code_simp
  have n9: "''call-9'' \<notin> fst ` set (pending two_calls)" by code_simp
  have l3: "list_all (is_reply parse_five) two_replies"
    using h3 by (simp add: list_all_iff)
  have l6: "list_all (\<lambda>p. promises two_calls (snd p) = None) (pending two_calls)"
    using h6 by (simp add: list_all_iff)
  define W where "W = run parse_five [Receive (Success (Some two_replies)), Timer] two_calls"
  note C = correlation[OF h1 h2, where P = parse_five and ms = two_replies, THEN conjunct2,
      THEN mp, OF conjI[OF h3 conjI[OF h4 conjI[OF h5 h6]]], folded W_def]
  note c1 = C[THEN conjunct1]
  note c3 = C[THEN conjunct2, THEN conjunct2]
  have r1: "promises W 0 = None"
    using bspec[OF c1 p1] unfolding f1 by simp
  have r2: "promises W 1
       = Some (Resolved (QueuedResponse (projr (parse_five ''{}'')) (reply ''call-2'' ''{}'')))"
    using bspec[OF c1 p2] unfolding f2 by (simp add: b2)
  have r3: "Log (''Deferred promise not found for CallID: '' @ ''call-9'') \<in> set (trace W)"
    using bspec[OF c3 m9, THEN spec, of "''call-9''"] k9 n9 by blast
  show ?thesis
    by (intro conjI h1 h2 l3 h4 h5 l6 r1[unfolded W_def] r2[unfolded W_def] r3[unfolded W_def])
qed

section \<open>Properties of dispatch\<close>

lemma map_of_Map_set [simp]: "map_of (Map_set k v m) k = Some v"
  by (induction m) auto

lemma enqueueCallRequest_slot [simp]: "snd (enqueueCallRequest c w) = nextDeferred w"
  by (simp add: enqueueCallRequest_def Let_def)

lemma enqueueCallRequest_pending:
  "pending (fst (enqueueCallRequest c w)) = Map_set c (nextDeferred w) (pending w)"
  by (simp add: enqueueCallRequest_def Let_def startResultCollectorIfNeeded_def
      resultCollector_call_def resultCollector_while_def)

lemma enqueueCallRequest_trace:
  "trace (fst (enqueueCallRequest c w)) =
     trace w @ Register c (nextDeferred w)
     # (if resultCollectorPromise (state_of w) then []
        else [Spawn ResultCollector,
              Log (''Polling response queue (size ''
                   @ decimal (length (Map_set c (nextDeferred w) (pending w))) @ ''): ''
                   @ shown (ResponseQueueUrl (resources (state_of w)))),
              Start (SqsReceiveMessage (ResponseQueueUrl (resources (state_of w))))])"
  by (simp add: enqueueCallRequest_def Let_def startResultCollectorIfNeeded_def
      resultCollector_call_def resultCollector_while_def)

lemma enqueueCallRequest_resources [simp]:
  "resources (state_of (fst (enqueueCallRequest c w))) = resources (state_of w)"
  by (simp add: enqueueCallRequest_def Let_def startResultCollectorIfNeeded_def
      resultCollector_call_def resultCollector_while_def)

lemma cloudifyWithResponse_queue_world:
  assumes "useQueue (state_of w) = Some True"
  shows "fst (cloudifyWithResponse S P env f args c w) =
     emit (Call (SnsPublish (RequestTopicArn (resources (state_of w)))
                   (S (FunctionCall f args c (ResponseQueueUrl (resources (state_of w))))))
           # (case publish env of Failure code \<Rightarrow> [] | Success u \<Rightarrow> [Await (Slot (nextDeferred w))]))
       (fst (enqueueCallRequest c w))"
proof -
  obtain w1 d where e: "enqueueCallRequest c w = (w1, d)" by (cases "enqueueCallRequest c w")
  then have d: "d = nextDeferred w" using enqueueCallRequest_slot[of c w] by simp
  show ?thesis
    using assms e d
    by (cases "publish env"; cases "responsePromise env")
       (auto simp: cloudifyWithResponse_def Let_def promise_def emit_def
          split: QueuedResponse.splits)
qed

text \<open>
  The order within one call. In queue mode its actions are: the registration of a new
  slot under the call's CallId; if no collector promise is held, the start of the
  collector up to its first \<open>receiveMessage\<close>; the publish of the serialized call to the
  request topic; and, once the publish has succeeded, the wait for the slot. Nothing
  before the publish suspends the caller, and when the call's first turn ends the slot
  is registered under the CallId and a collector promise is held.
\<close>

theorem registration_before_publish:
  assumes "useQueue (state_of w) = Some True"
  shows "trace (fst (cloudifyWithResponse S P env f args c w)) =
      trace w @ [Register c (nextDeferred w)]
      @ (if resultCollectorPromise (state_of w) then []
         else [Spawn ResultCollector,
               Log (''Polling response queue (size ''
                    @ decimal (length (Map_set c (nextDeferred w) (pending w))) @ ''): ''
                    @ shown (ResponseQueueUrl (resources (state_of w)))),
               Start (SqsReceiveMessage (ResponseQueueUrl (resources (state_of w))))])
      @ [Call (SnsPublish (RequestTopicArn (resources (state_of w)))
                (S (FunctionCall f args c (ResponseQueueUrl (resources (state_of w))))))]
      @ (case publish env of Failure code \<Rightarrow> [] | Success u \<Rightarrow> [Await (Slot (nextDeferred w))])
   \<and> before (Register c (nextDeferred w))
        (Call (SnsPublish (RequestTopicArn (resources (state_of w)))
                (S (FunctionCall f args c (ResponseQueueUrl (resources (state_of w)))))))
        (drop (length (trace w)) (trace (fst (cloudifyWithResponse S P env f args c w))))
   \<and> \<not> list_ex suspends
        (takeWhile (\<lambda>a. a \<noteq> Call (SnsPublish (RequestTopicArn (resources (state_of w)))
                (S (FunctionCall f args c (ResponseQueueUrl (resources (state_of w)))))))
           (drop (length (trace w)) (trace (fst (cloudifyWithResponse S P env f args c w)))))
   \<and> map_of (pending (fst (cloudifyWithResponse S P env f args c w))) c = Some (nextDeferred w)
   \<and> resultCollectorPromise (state_of (fst (cloudifyWithResponse S P env f args c w)))"
proof -
  define pub where "pub = Call (SnsPublish (RequestTopicArn (resources (state_of w)))
      (S (FunctionCall f args c (ResponseQueueUrl (resources (state_of w))))))"
  define start where "start = (if resultCollectorPromise (state_of w) then []
      else [Spawn ResultCollector,
            Log (''Polling response queue (size ''
                 @ decimal (length (Map_set c (nextDeferred w) (pending w))) @ ''): ''
                 @ shown (ResponseQueueUrl (resources (state_of w)))),
            Start (SqsReceiveMessage (ResponseQueueUrl (resources (state_of w))))])"
  define rest where "rest = (case publish env of Failure code \<Rightarrow> []
      | Success u \<Rightarrow> [Await (Slot (nextDeferred w))])"
  define w' where "w' = fst (cloudifyWithResponse S P env f args c w)"
  have wq: "w' = emit (pub # rest) (fst (enqueueCallRequest c w))"
    unfolding w'_def pub_def rest_def by (rule cloudifyWithResponse_queue_world[OF assms])
  have t: "trace w' = trace w @ [Register c (nextDeferred w)] @ start @ [pub] @ rest"
    unfolding wq by (simp add: enqueueCallRequest_trace start_def)
  have own: "drop (length (trace w)) (trace w') = Register c (nextDeferred w) # start @ pub # rest"
    unfolding t by simp
  have np: "Register c (nextDeferred w) \<noteq> pub" "\<forall>a \<in> set start. a \<noteq> pub"
    by (auto simp: pub_def start_def)
  have tw: "takeWhile (\<lambda>a. a \<noteq> pub) (drop (length (trace w)) (trace w'))
      = Register c (nextDeferred w) # start"
    unfolding own using np by (simp add: takeWhile_append2)
  have b: "before (Register c (nextDeferred w)) pub (drop (length (trace w)) (trace w'))"
    unfolding before_def tw by simp
  have s: "\<not> list_ex suspends (takeWhile (\<lambda>a. a \<noteq> pub) (drop (length (trace w)) (trace w')))"
    unfolding tw by (simp add: start_def)
  have p: "map_of (pending w') c = Some (nextDeferred w)"
    unfolding wq by (simp add: enqueueCallRequest_pending)
  have h: "resultCollectorPromise (state_of w')"
    unfolding wq using enqueueCallRequest_view[of c w] by simp
  from t b s p h show ?thesis
    unfolding w'_def pub_def start_def rest_def by simp
qed

theorem registration_before_publish_witness:
  "useQueue (state_of idle_world) = Some True
   \<and> map_of (pending (fst (cloudifyWithResponse stringify_call parse_five reply_env
         ''boom'' [] ''call-1'' idle_world))) ''call-1'' = Some (nextDeferred idle_world)
   \<and> resultCollectorPromise (state_of (fst (cloudifyWithResponse stringify_call parse_five
         reply_env ''boom'' [] ''call-1'' idle_world)))"
proof -
  have h: "useQueue (state_of idle_world) = Some True" by code_simp
  from registration_before_publish[OF h, of stringify_call parse_five reply_env "''boom''" "[]"
      "''call-1''"] h
  show ?thesis by blast
qed

text \<open>
  C2, at the failing input. A call is pending and the collector's \<open>receiveMessage\<close> is
  rejected: the collector ends, and \<open>resultCollectorPromise\<close> still holds its promise. The
  next call registers its slot, publishes and waits, and starts no collector, since
  \<open>startResultCollectorIfNeeded\<close> looks at the promise held and not at whether a collector
  runs. No collector runs afterwards, so the reply to that call, once in the response
  queue, is not received and the slot stays pending.
\<close>

theorem failed_receive_leaves_no_collector_for_next_call:
  "collectors (run parse_five [Enqueue ''call-1'', Receive (Failure ''NetworkingError'')]
       idle_world) = 0
   \<and> resultCollectorPromise (state_of
       (run parse_five [Enqueue ''call-1'', Receive (Failure ''NetworkingError'')] idle_world))
   \<and> drop (length (trace
         (run parse_five [Enqueue ''call-1'', Receive (Failure ''NetworkingError'')] idle_world)))
       (trace (fst (cloudifyWithResponse stringify_call parse_five reply_env ''add'' [2, 3]
          ''call-2''
          (run parse_five [Enqueue ''call-1'', Receive (Failure ''NetworkingError'')]
             idle_world))))
     = [Register ''call-2'' 1, Call (SnsPublish (Some ''arn:topic'') ''{}''), Await (Slot 1)]
   \<and> collectors (fst (cloudifyWithResponse stringify_call parse_five reply_env ''add'' [2, 3]
          ''call-2''
          (run parse_five [Enqueue ''call-1'', Receive (Failure ''NetworkingError'')]
             idle_world))) = 0
   \<and> map_of (pending (fst (cloudifyWithResponse stringify_call parse_five reply_env ''add''
          [2, 3] ''call-2''
          (run parse_five [Enqueue ''call-1'', Receive (Failure ''NetworkingError'')]
             idle_world)))) ''call-2'' = Some 1
   \<and> promises (run parse_five [Timer, Receive (Success (Some [reply ''call-2'' ''{}''])), Timer]
        (fst (cloudifyWithResponse stringify_call parse_five reply_env ''add'' [2, 3]
          ''call-2''
          (run parse_five [Enqueue ''call-1'', Receive (Failure ''NetworkingError'')]
             idle_world)))) 1 = None
   \<and> collectors (run parse_five [Timer, Receive (Success (Some [reply ''call-2'' ''{}''])), Timer]
        (fst (cloudifyWithResponse stringify_call parse_five reply_env ''add'' [2, 3]
          ''call-2''
          (run parse_five [Enqueue ''call-1'', Receive (Failure ''NetworkingError'')]
             idle_world)))) = 0"
  by code_simp

lemma cloudifyWithResponse_queue_result:
  assumes "useQueue (state_of w) = Some True"
  shows "snd (cloudifyWithResponse S P env f args c w) =
     (case promise (publish env) of
        Inl err \<Rightarrow> Inl err
      | Inr u \<Rightarrow>
          (case responsePromise env of
             Rejected err \<Rightarrow> Inl err
           | Resolved (QueuedResponse returned msg) \<Rightarrow>
               make_response returned None (QueueMessage msg)))"
  using assms
  by (cases "enqueueCallRequest c w")
     (simp add: cloudifyWithResponse_def Let_def
        split: sum.splits settlement.splits QueuedResponse.splits)

lemma cloudifyWithResponse_direct_result:
  assumes "useQueue (state_of w) \<noteq> Some True"
  shows "snd (cloudifyWithResponse S P env f args c w) =
     (case promise (lambda_invoke env) of
        Inl err \<Rightarrow> Inl err
      | Inr raw \<Rightarrow>
          (if truthy (FunctionError raw)
           then make_response None (Some (newError (Payload raw))) (LambdaResponse raw)
           else if \<not> truthy (Payload raw) then make_response None None (LambdaResponse raw)
           else (case P (the (Payload raw)) of
                   Inl err \<Rightarrow> Inl err
                 | Inr returned \<Rightarrow> make_response returned None (LambdaResponse raw))))"
  using assms
  by (simp add: cloudifyWithResponse_def Let_def split: sum.splits)

lemma make_response_error:
  "make_response (Some (FunctionReturn (Some ''error'') (Object msg nm stk rest))) error0 raw =
     Inr \<lparr> rv_value = None,
           rv_error = Some (ErrorObject nm (case msg of None \<Rightarrow> [] | Some m \<Rightarrow> m) (Assigned stk)),
           rv_rawResponse = raw \<rparr>"
  by (simp add: make_response_def)

lemma make_response_value:
  "t \<noteq> Some ''error'' \<Longrightarrow>
   make_response (Some (FunctionReturn t x)) None raw =
     Inr \<lparr> rv_value = Some x, rv_error = None, rv_rawResponse = raw \<rparr>"
  by (simp add: make_response_def)

lemma make_response_raw:
  "make_response returned error0 raw = Inr rv \<Longrightarrow> rv_rawResponse rv = raw"
  by (auto simp: make_response_def split: option.splits FunctionReturn.splits if_splits
      jsvalue.splits sum.splits)

text \<open>
  C5. A return of type \<open>error\<close> does not make the call throw: in queue mode and in
  direct mode the result carries an \<open>Error\<close> with the \<open>name\<close>, \<open>message\<close> and \<open>stack\<close> of
  the return's value in \<open>error\<close>, and no value. A return of another type is passed in
  \<open>value\<close> with no error. In direct mode a \<open>FunctionError\<close> gives a result whose \<open>error\<close> is
  \<open>new Error(Payload)\<close>. Whenever the call returns a result, \<open>rawResponse\<close> is the message
  that resolved the slot (queue mode) or the response of \<open>lambda.invoke\<close> (direct mode).
\<close>

theorem invoke_result_mapping:
  "(useQueue (state_of w) = Some True \<and> publish env = Success ()
      \<and> responsePromise env = Resolved (QueuedResponse
           (Some (FunctionReturn (Some ''error'') (Object msg nm stk rest))) m) \<longrightarrow>
      snd (cloudifyWithResponse S P env f args c w) =
        Inr \<lparr> rv_value = None,
              rv_error = Some (ErrorObject nm (case msg of None \<Rightarrow> [] | Some x \<Rightarrow> x) (Assigned stk)),
              rv_rawResponse = QueueMessage m \<rparr>)
   \<and> (useQueue (state_of w) = Some True \<and> publish env = Success ()
      \<and> responsePromise env = Resolved (QueuedResponse (Some (FunctionReturn t x)) m)
      \<and> t \<noteq> Some ''error'' \<longrightarrow>
      snd (cloudifyWithResponse S P env f args c w) =
        Inr \<lparr> rv_value = Some x, rv_error = None, rv_rawResponse = QueueMessage m \<rparr>)
   \<and> (useQueue (state_of w) \<noteq> Some True \<and> lambda_invoke env = Success raw
      \<and> truthy (FunctionError raw) \<longrightarrow>
      snd (cloudifyWithResponse S P env f args c w) =
        Inr \<lparr> rv_value = None, rv_error = Some (newError (Payload raw)),
              rv_rawResponse = LambdaResponse raw \<rparr>)
   \<and> (useQueue (state_of w) \<noteq> Some True \<and> lambda_invoke env = Success raw
      \<and> \<not> truthy (FunctionError raw) \<and> truthy (Payload raw)
      \<and> P (the (Payload raw)) = Inr (Some (FunctionReturn (Some ''error'') (Object msg nm stk rest))) \<longrightarrow>
      snd (cloudifyWithResponse S P env f args c w) =
        Inr \<lparr> rv_value = None,
              rv_error = Some (ErrorObject nm (case msg of None \<Rightarrow> [] | Some x \<Rightarrow> x) (Assigned stk)),
              rv_rawResponse = LambdaResponse raw \<rparr>)
   \<and> (useQueue (state_of w) \<noteq> Some True \<and> lambda_invoke env = Success raw
      \<and> \<not> truthy (FunctionError raw) \<and> truthy (Payload raw)
      \<and> P (the (Payload raw)) = Inr (Some (FunctionReturn t x)) \<and> t \<noteq> Some ''error'' \<longrightarrow>
      snd (cloudifyWithResponse S P env f args c w) =
        Inr \<lparr> rv_value = Some x, rv_error = None, rv_rawResponse = LambdaResponse raw \<rparr>)
   \<and> (snd (cloudifyWithResponse S P env f args c w) = Inr rv \<longrightarrow>
        (if useQueue (state_of w) = Some True
         then \<exists>returned m. responsePromise env = Resolved (QueuedResponse returned m)
                \<and> rv_rawResponse rv = QueueMessage m
         else \<exists>r. lambda_invoke env = Success r \<and> rv_rawResponse rv = LambdaResponse r))"
proof (intro conjI impI)
  assume "useQueue (state_of w) = Some True \<and> publish env = Success ()
      \<and> responsePromise env = Resolved (QueuedResponse
           (Some (FunctionReturn (Some ''error'') (Object msg nm stk rest))) m)"
  then show "snd (cloudifyWithResponse S P env f args c w) =
        Inr \<lparr> rv_value = None,
              rv_error = Some (ErrorObject nm (case msg of None \<Rightarrow> [] | Some x \<Rightarrow> x) (Assigned stk)),
              rv_rawResponse = QueueMessage m \<rparr>"
    by (simp add: cloudifyWithResponse_queue_result promise_def make_response_error)
next
  assume "useQueue (state_of w) = Some True \<and> publish env = Success ()
      \<and> responsePromise env = Resolved (QueuedResponse (Some (FunctionReturn t x)) m)
      \<and> t \<noteq> Some ''error''"
  then show "snd (cloudifyWithResponse S P env f args c w) =
        Inr \<lparr> rv_value = Some x, rv_error = None, rv_rawResponse = QueueMessage m \<rparr>"
    by (simp add: cloudifyWithResponse_queue_result promise_def make_response_value)
next
  assume "useQueue (state_of w) \<noteq> Some True \<and> lambda_invoke env = Success raw
      \<and> truthy (FunctionError raw)"
  then show "snd (cloudifyWithResponse S P env f args c w) =
        Inr \<lparr> rv_value = None, rv_error = Some (newError (Payload raw)),
              rv_rawResponse = LambdaResponse raw \<rparr>"
    by (simp add: cloudifyWithResponse_direct_result promise_def make_response_def)
next
  assume "useQueue (state_of w) \<noteq> Some True \<and> lambda_invoke env = Success raw
      \<and> \<not> truthy (FunctionError raw) \<and> truthy (Payload raw)
      \<and> P (the (Payload raw)) = Inr (Some (FunctionReturn (Some ''error'') (Object msg nm stk rest)))"
  then show "snd (cloudifyWithResponse S P env f args c w) =
        Inr \<lparr> rv_value = None,
              rv_error = Some (ErrorObject nm (case msg of None \<Rightarrow> [] | Some x \<Rightarrow> x) (Assigned stk)),
              rv_rawResponse = LambdaResponse raw \<rparr>"
    by (simp add: cloudifyWithResponse_direct_result promise_def make_response_error)
next
  assume "useQueue (state_of w) \<noteq> Some True \<and> lambda_invoke env = Success raw
      \<and> \<not> truthy (FunctionError raw) \<and> truthy (Payload raw)
      \<and> P (the (Payload raw)) = Inr (Some (FunctionReturn t x)) \<and> t \<noteq> Some ''error''"
  then show "snd (cloudifyWithResponse S P env f args c w) =
        Inr \<lparr> rv_value = Some x, rv_error = None, rv_rawResponse = LambdaResponse raw \<rparr>"
    by (simp add: cloudifyWithResponse_direct_result promise_def make_response_value)
next
  assume r: "snd (cloudifyWithResponse S P env f args c w) = Inr rv"
  show "if useQueue (state_of w) = Some True
         then \<exists>returned m. responsePromise env = Resolved (QueuedResponse returned m)
                \<and> rv_rawResponse rv = QueueMessage m
         else \<exists>r. lambda_invoke env = Success r \<and> rv_rawResponse rv = LambdaResponse r"
  proof (cases "useQueue (state_of w) = Some True")
    case True
    from r obtain returned m where
      "responsePromise env = Resolved (QueuedResponse returned m)"
      "make_response returned None (QueueMessage m) = Inr rv"
      unfolding cloudifyWithResponse_queue_result[OF True]
      by (auto split: sum.splits settlement.splits QueuedResponse.splits)
    with make_response_raw[of returned None "QueueMessage m" rv] True show ?thesis by auto
  next
    case False
    from r obtain raw returned error0 where
      "lambda_invoke env = Success raw"
      "make_response returned error0 (LambdaResponse raw) = Inr rv"
      unfolding cloudifyWithResponse_direct_result[OF False]
      by (cases "lambda_invoke env") (auto simp: promise_def split: sum.splits if_splits)
    with make_response_raw[of returned error0 "LambdaResponse raw" rv] False show ?thesis by auto
  qed
qed

theorem invoke_result_mapping_witness:
  "useQueue (state_of idle_world) = Some True \<and> publish reply_env = Success ()
   \<and> snd (cloudifyWithResponse stringify_call parse_five reply_env ''boom'' [] ''call-1'' idle_world)
      = Inr \<lparr> rv_value = None,
             rv_error = Some (ErrorObject (Some ''TypeError'') ''x'' (Assigned (Some ''at boom''))),
             rv_rawResponse = QueueMessage (reply ''call-1'' ''{}'') \<rparr>
   \<and> useQueue (state_of (initial_world (idle_state\<lparr>useQueue := Some False\<rparr>))) \<noteq> Some True
   \<and> snd (cloudifyWithResponse stringify_call parse_five reply_env ''add'' [2, 3] ''call-1''
            (initial_world (idle_state\<lparr>useQueue := Some False\<rparr>)))
      = Inr \<lparr> rv_value = Some (Object None None None 5), rv_error = None,
             rv_rawResponse = LambdaResponse
               \<lparr> FunctionError = None, LogResult = None, Payload = Some ''{}'' \<rparr> \<rparr>"
proof -
  have h1: "useQueue (state_of idle_world) = Some True" by code_simp
  have h2: "publish reply_env = Success ()" by code_simp
  have h3: "responsePromise reply_env = Resolved (QueuedResponse
      (Some (FunctionReturn (Some ''error'')
               (Object (Some ''x'') (Some ''TypeError'') (Some ''at boom'') 0)))
      (reply ''call-1'' ''{}''))" by (simp add: reply_env_def)
  have d1: "useQueue (state_of (initial_world (idle_state\<lparr>useQueue := Some False\<rparr>)))
      \<noteq> Some True" by code_simp
  have d2: "lambda_invoke reply_env
      = Success \<lparr> FunctionError = None, LogResult = None, Payload = Some ''{}'' \<rparr>"
    by (simp add: reply_env_def)
  have d3: "\<not> truthy (FunctionError \<lparr> FunctionError = None, LogResult = None,
      Payload = Some ''{}'' \<rparr>)" by code_simp
  have d4: "truthy (Payload \<lparr> FunctionError = None, LogResult = None, Payload = Some ''{}'' \<rparr>)"
    by code_simp
  have d5: "parse_five (the (Payload \<lparr> FunctionError = None, LogResult = None,
      Payload = Some ''{}'' \<rparr>))
      = Inr (Some (FunctionReturn (Some ''value'') (Object None None None 5)))"
    by (simp add: parse_five_def)
  have d6: "Some ''value'' \<noteq> Some ''error''" by simp
  note Q = invoke_result_mapping[where w = idle_world and env = reply_env
      and S = stringify_call and P = parse_five and f = "''boom''" and args = "[]"
      and c = "''call-1''" and msg = "Some ''x''" and nm = "Some ''TypeError''"
      and stk = "Some ''at boom''" and rest = 0 and m = "reply ''call-1'' ''{}''",
      THEN conjunct1, THEN mp, OF conjI[OF h1 conjI[OF h2 h3]]]
  note D = invoke_result_mapping[where w = "initial_world (idle_state\<lparr>useQueue := Some False\<rparr>)"
      and env = reply_env and S = stringify_call and P = parse_five and f = "''add''"
      and args = "[2, 3]" and c = "''call-1''" and t = "Some ''value''"
      and x = "Object None None None 5"
      and raw = "\<lparr> FunctionError = None, LogResult = None, Payload = Some ''{}'' \<rparr>",
      THEN conjunct2, THEN conjunct2, THEN conjunct2, THEN conjunct2, THEN conjunct1, THEN mp,
      OF conjI[OF d1 conjI[OF d2 conjI[OF d3 conjI[OF d4 conjI[OF d5 d6]]]]]]
  have Q': "snd (cloudifyWithResponse stringify_call parse_five reply_env ''boom'' [] ''call-1'' idle_world)
      = Inr \<lparr> rv_value = None,
             rv_error = Some (ErrorObject (Some ''TypeError'') ''x'' (Assigned (Some ''at boom''))),
             rv_rawResponse = QueueMessage (reply ''call-1'' ''{}'') \<rparr>"
    using Q by simp
  show ?thesis by (intro conjI h1 h2 Q' d1 D)
qed

end
